theory Spec2Isabelle
  imports Main "HOL-Library.Sublist"
begin

section \<open>JavaScript values used by the backup service\<close>

text \<open>
  A JavaScript number as far as \<open>parseInt\<close> can produce one: \<open>NaN\<close> or an integer.
  The model keeps the mathematical integer; the double of the engine differs from it only
  above \<open>2 ^ 53\<close> in magnitude, and the two zeros are one value (\<open>-0\<close> compares and
  slices as \<open>0\<close>).
\<close>

datatype jsnum = NaN | Num int

text \<open>A thrown value: the message of the \<open>Error\<close> object.\<close>

datatype thrown = Thrown string

text \<open>\<open>a > b\<close> and \<open>a >= b\<close> on numbers: every comparison with \<open>NaN\<close> is false.\<close>

fun js_gt :: "jsnum \<Rightarrow> jsnum \<Rightarrow> bool" where
  "js_gt (Num a) (Num b) = (a > b)"
| "js_gt _ _ = False"

fun js_ge :: "jsnum \<Rightarrow> jsnum \<Rightarrow> bool" where
  "js_ge (Num a) (Num b) = (a \<ge> b)"
| "js_ge _ _ = False"

text \<open>
  \<open>a ?? b\<close>: the right operand is taken only when the left one is \<open>undefined\<close> or
  \<open>null\<close> (here \<open>None\<close>); every other value, \<open>NaN\<close> and \<open>0\<close> included, is kept.
\<close>

definition nullish :: "'a option \<Rightarrow> 'a \<Rightarrow> 'a" where
  "nullish a b = (case a of None \<Rightarrow> b | Some v \<Rightarrow> v)"

text \<open>\<open>ToString\<close> of a label lookup: a string, or \<open>undefined\<close>.\<close>

definition ToString :: "string option \<Rightarrow> string" where
  "ToString v = (case v of None \<Rightarrow> ''undefined'' | Some s \<Rightarrow> s)"

subsection \<open>\<open>parseInt\<close> with no radix argument\<close>

text \<open>
  A \<open>char\<close> stands for a UTF-16 code unit below 256. The white space of ECMAScript in
  that range is TAB, LF, VT, FF, CR, SP and NBSP.
\<close>

definition isStrWhiteSpaceChar :: "char \<Rightarrow> bool" where
  "isStrWhiteSpaceChar c = ((of_char c :: nat) \<in> {9, 10, 11, 12, 13, 32, 160})"

definition digitValue :: "char \<Rightarrow> nat option" where
  "digitValue c =
     (let n = (of_char c :: nat)
      in if 48 \<le> n \<and> n \<le> 57 then Some (n - 48)
         else if 97 \<le> n \<and> n \<le> 122 then Some (n - 87)
         else if 65 \<le> n \<and> n \<le> 90 then Some (n - 55)
         else None)"

definition isRadixDigit :: "nat \<Rightarrow> char \<Rightarrow> bool" where
  "isRadixDigit R c = (case digitValue c of None \<Rightarrow> False | Some d \<Rightarrow> d < R)"

definition mathInt :: "nat \<Rightarrow> string \<Rightarrow> nat" where
  "mathInt R Z =
     foldl (\<lambda>acc c. case digitValue c of None \<Rightarrow> acc | Some d \<Rightarrow> acc * R + d) 0 Z"

definition parseInt :: "string \<Rightarrow> jsnum" where
  "parseInt inputString =
     (let S = dropWhile isStrWhiteSpaceChar inputString;
          sign = (if S \<noteq> [] \<and> hd S = CHR ''-'' then - 1 else 1 :: int);
          S1 = (if S \<noteq> [] \<and> (hd S = CHR ''+'' \<or> hd S = CHR ''-'') then tl S else S);
          hex = (2 \<le> length S1 \<and> (take 2 S1 = ''0x'' \<or> take 2 S1 = ''0X''));
          R = (if hex then 16 else 10);
          S2 = (if hex then drop 2 S1 else S1);
          Z = takeWhile (isRadixDigit R) S2
      in if Z = [] then NaN else Num (sign * int (mathInt R Z)))"

section \<open>Data model (backup.interfaces.ts)\<close>

record BackupModuleOptions =
  labelPrefix :: string
  backupDir :: string
  cronSchedule :: string

record BackupConfig =
  containerId :: string
  containerName :: string
  enabled :: bool
  command :: "string option"
  location :: string
  schedule :: "string option"
  retention :: jsnum
  preCommand :: "string option"
  postCommand :: "string option"

text \<open>
  The part of Dockerode's \<open>ContainerInfo\<close> the service reads. \<open>Labels\<close> may be absent
  (\<open>container.Labels || {}\<close>); a field typed \<open>string\<close> in \<open>BackupConfig\<close> holds
  \<open>undefined\<close> (\<open>None\<close>) when its label is missing.
\<close>

record ContainerInfo =
  Id_c :: string
  Names :: "string list"
  Labels :: "(string \<rightharpoonup> string) option"

section \<open>extractBackupConfig\<close>

text \<open>\<open>s.replace('/', '')\<close> with a string pattern removes the first occurrence only.\<close>

definition replace_slash :: "string \<Rightarrow> string" where
  "replace_slash s = remove1 (CHR ''/'') s"

definition labels_of :: "ContainerInfo \<Rightarrow> (string \<rightharpoonup> string)" where
  "labels_of container = (case Labels container of None \<Rightarrow> Map.empty | Some l \<Rightarrow> l)"

definition extractBackupConfig :: "BackupModuleOptions \<Rightarrow> ContainerInfo \<Rightarrow> thrown + BackupConfig" where
  "extractBackupConfig opts container =
     (let labels = labels_of container;
          prefix = labelPrefix opts
      in case Names container of
           [] \<Rightarrow> Inl (Thrown ''TypeError: Cannot read properties of undefined (reading 'replace')'')
         | name0 # _ \<Rightarrow>
             Inr \<lparr> containerId = Id_c container,
                   containerName = replace_slash name0,
                   enabled = (labels (prefix @ ''.backup'') = Some ''true''),
                   command = labels (prefix @ ''.command''),
                   location = nullish (labels (prefix @ ''.location'')) ''/tmp/backup'',
                   schedule = labels (prefix @ ''.schedule''),
                   retention = nullish (Some (parseInt (ToString (labels (prefix @ ''.retention''))))) (Num 7),
                   preCommand = labels (prefix @ ''.pre_command''),
                   postCommand = labels (prefix @ ''.post_command'') \<rparr>)"

section \<open>Strings, truthiness and array slices\<close>

text \<open>\<open>s.includes(pat)\<close>: the pattern occurs at some position of \<open>s\<close>.\<close>

fun js_includes :: "string \<Rightarrow> string \<Rightarrow> bool" where
  "js_includes [] pat = (pat = [])"
| "js_includes (c # cs) pat = (prefix pat (c # cs) \<or> js_includes cs pat)"

text \<open>A string-or-undefined value in a condition: \<open>undefined\<close> and \<open>''\<close> are falsy.\<close>

definition truthy :: "string option \<Rightarrow> bool" where
  "truthy v = (case v of None \<Rightarrow> False | Some s \<Rightarrow> s \<noteq> [])"

text \<open>
  \<open>xs.slice(start)\<close>: \<open>NaN\<close> counts as 0, a negative start counts from the end
  (not before index 0), a start beyond the length gives the empty array.
\<close>

fun js_slice :: "'a list \<Rightarrow> jsnum \<Rightarrow> 'a list" where
  "js_slice xs NaN = xs"
| "js_slice xs (Num n) =
     (if n < 0 then drop (nat (int (length xs) + n)) xs else drop (nat n) xs)"

section \<open>The runtime the service calls\<close>

text \<open>
  The state of everything outside the service (host file system, Docker daemon, clock) is
  a value of type \<open>'w\<close>. The library calls of the service are the fields of two
  records; a call that can change the outside returns the new state. A rejected promise
  or a thrown exception is \<open>Inl\<close>.
\<close>

record 'w fs_ops =
  fs_ensureDir :: "string \<Rightarrow> 'w \<Rightarrow> (thrown + unit) \<times> 'w"
  fs_readdir :: "string \<Rightarrow> 'w \<Rightarrow> thrown + string list"
  fs_statSync :: "string \<Rightarrow> 'w \<Rightarrow> thrown + int"
  fs_remove :: "string \<Rightarrow> 'w \<Rightarrow> (thrown + unit) \<times> 'w"
  path_join :: "string \<Rightarrow> string \<Rightarrow> string"

text \<open>
  A chunk of the exec stream: a primitive string (\<open>typeof data === 'string'\<close>) or
  anything else, such as a Buffer of bytes.
\<close>

datatype chunk = StrChunk string | OtherChunk "nat list"

text \<open>
  What \<open>container.exec\<close> and \<open>exec.start\<close> call back with: an \<open>Error\<close> from either,
  or a stream with its \<open>data\<close> events in order and whether \<open>end\<close> is emitted. Dockerode
  passes \<open>Error\<close> objects only, so an error value that is no \<open>Error\<close> (which the
  source would let through) is not a case of the model.
\<close>

datatype exec_reply =
    ExecError thrown
  | StartError thrown
  | Stream "chunk list" bool

record 'w docker_ops =
  listContainers :: "'w \<Rightarrow> (thrown + ContainerInfo list) \<times> 'w"
  container_exec :: "string \<Rightarrow> string \<Rightarrow> 'w \<Rightarrow> exec_reply \<times> 'w"
  execAsync :: "string \<Rightarrow> 'w \<Rightarrow> (thrown + unit) \<times> 'w"
  toISOString_now :: "'w \<Rightarrow> string"

text \<open>A promise at the point where it is awaited; \<open>Pending\<close> is never settled.\<close>

datatype 'a promise = Resolved 'a | Rejected thrown | Pending

text \<open>
  The calls the service makes to the outside, in order. \<open>Cleanup\<close> marks the call of
  \<open>cleanupOldBackups\<close> from \<open>executeBackup\<close>; \<open>Remove\<close> is a call of \<open>fs.remove\<close>,
  whatever its outcome. Logger calls change no control flow and are left out.
\<close>

datatype event =
    EnsureDir string
  | Exec string string
  | Copy string
  | Cleanup string jsnum
  | Remove string

section \<open>execInContainer\<close>

fun on_data :: "string \<Rightarrow> chunk \<Rightarrow> string" where
  "on_data output (StrChunk s) = output @ s"
| "on_data output (OtherChunk _) = output"

definition accumulated :: "chunk list \<Rightarrow> string" where
  "accumulated cs = foldl on_data [] cs"

definition on_end :: "string \<Rightarrow> string promise" where
  "on_end output =
     (if js_includes output ''Error'' \<or> js_includes output ''error''
      then Rejected (Thrown output) else Resolved output)"

fun settle :: "exec_reply \<Rightarrow> string promise" where
  "settle (ExecError e) = Rejected e"
| "settle (StartError e) = Rejected e"
| "settle (Stream cs ended) = (if ended then on_end (accumulated cs) else Pending)"

definition execInContainer :: "'w docker_ops \<Rightarrow> string \<Rightarrow> string \<Rightarrow> 'w \<Rightarrow> string promise \<times> 'w" where
  "execInContainer dk cid cmd w =
     (case container_exec dk cid cmd w of (reply, w') \<Rightarrow> (settle reply, w'))"

section \<open>cleanupOldBackups\<close>

record backup_file =
  name :: string
  path :: string
  mtime :: int

text \<open>The \<open>map\<close> over the candidates: the first \<open>statSync\<close> that throws ends it.\<close>

fun stat_files :: "'w fs_ops \<Rightarrow> 'w \<Rightarrow> string \<Rightarrow> string list \<Rightarrow> thrown + backup_file list" where
  "stat_files fsys w backupPath [] = Inr []"
| "stat_files fsys w backupPath (file # files) =
     (case fs_statSync fsys (path_join fsys backupPath file) w of
        Inl e \<Rightarrow> Inl e
      | Inr t \<Rightarrow>
          (case stat_files fsys w backupPath files of
             Inl e \<Rightarrow> Inl e
           | Inr rest \<Rightarrow>
               Inr (\<lparr> name = file, path = path_join fsys backupPath file, mtime = t \<rparr> # rest)))"

text \<open>The \<open>for\<close> loop over \<open>filesToDelete\<close>: the first rejected \<open>fs.remove\<close> leaves it.\<close>

fun remove_files :: "'w fs_ops \<Rightarrow> backup_file list \<Rightarrow> 'w \<Rightarrow> event list \<times> thrown option \<times> 'w" where
  "remove_files fsys [] w = ([], None, w)"
| "remove_files fsys (f # fs) w =
     (case fs_remove fsys (path f) w of
        (Inl e, w') \<Rightarrow> ([Remove (path f)], Some e, w')
      | (Inr _, w') \<Rightarrow>
          (case remove_files fsys fs w' of
             (evs, r, w'') \<Rightarrow> (Remove (path f) # evs, r, w'')))"

text \<open>
  The comparator \<open>b.mtime - a.mtime\<close> with the engine's stable sort: descending
  modification time, ties in the order of \<open>readdir\<close>. The parameter \<open>keep\<close> is
  the source's \<open>retention\<close>. The result is the calls made,
  the error the \<open>catch\<close> block swallowed (if any) and the new outside state; the
  function itself always returns.
\<close>

definition cleanupOldBackups :: "'w fs_ops \<Rightarrow> string \<Rightarrow> jsnum \<Rightarrow> 'w \<Rightarrow> event list \<times> thrown option \<times> 'w" where
  "cleanupOldBackups fsys backupPath keep w =
     (case fs_readdir fsys backupPath w of
        Inl e \<Rightarrow> ([], Some e, w)
      | Inr files \<Rightarrow>
          (case stat_files fsys w backupPath (filter (\<lambda>file. js_includes file ''_'') files) of
             Inl e \<Rightarrow> ([], Some e, w)
           | Inr stated \<Rightarrow>
               (let backupFiles = sort_key (\<lambda>f. - mtime f) stated
                in if js_gt (Num (int (length backupFiles))) keep
                   then remove_files fsys (js_slice backupFiles keep) w
                   else ([], None, w))))"

section \<open>executeBackup\<close>

text \<open>
  An awaited call inside the \<open>try\<close> block: its outcome, the calls it made and the new
  outside state. After a rejected or unsettled one nothing further of the block runs.
\<close>

type_synonym 'w step = "'w \<Rightarrow> unit promise \<times> event list \<times> 'w"

definition skip_step :: "'w step" where
  "skip_step w = (Resolved (), [], w)"

definition and_then :: "'w step \<Rightarrow> 'w step \<Rightarrow> 'w step" where
  "and_then a b w =
     (case a w of
        (Resolved _, evs, w') \<Rightarrow> (case b w' of (r, evs', w'') \<Rightarrow> (r, evs @ evs', w''))
      | (Rejected e, evs, w') \<Rightarrow> (Rejected e, evs, w')
      | (Pending, evs, w') \<Rightarrow> (Pending, evs, w'))"

definition await_exec :: "'w docker_ops \<Rightarrow> string \<Rightarrow> string \<Rightarrow> 'w step" where
  "await_exec dk cid cmd w =
     (case execInContainer dk cid cmd w of
        (r, w') \<Rightarrow> (map_promise (\<lambda>_. ()) r, [Exec cid cmd], w'))"

definition timestamp_of :: "'w docker_ops \<Rightarrow> 'w \<Rightarrow> string" where
  "timestamp_of dk w =
     map (\<lambda>c. if c = CHR '':'' \<or> c = CHR ''.'' then CHR ''-'' else c) (toISOString_now dk w)"

definition backupFileName_of :: "'w docker_ops \<Rightarrow> BackupConfig \<Rightarrow> 'w \<Rightarrow> string" where
  "backupFileName_of dk config w = containerName config @ ''_'' @ timestamp_of dk w"

definition hostBackupPath_of :: "'w fs_ops \<Rightarrow> BackupModuleOptions \<Rightarrow> BackupConfig \<Rightarrow> string" where
  "hostBackupPath_of fsys opts config = path_join fsys (backupDir opts) (containerName config)"

definition pre_step :: "'w docker_ops \<Rightarrow> BackupConfig \<Rightarrow> 'w step" where
  "pre_step dk config =
     (if truthy (preCommand config)
      then await_exec dk (containerId config) (ToString (preCommand config))
      else skip_step)"

definition fullCommand_of :: "BackupConfig \<Rightarrow> string \<Rightarrow> string" where
  "fullCommand_of config backupFileName =
     ToString (command config) @ '' > '' @ location config @ ''/'' @ backupFileName"

definition main_step :: "'w docker_ops \<Rightarrow> BackupConfig \<Rightarrow> string \<Rightarrow> 'w step" where
  "main_step dk config backupFileName =
     (if truthy (command config)
      then await_exec dk (containerId config) (fullCommand_of config backupFileName)
      else skip_step)"

definition copyCommand_of :: "BackupConfig \<Rightarrow> string \<Rightarrow> string \<Rightarrow> string" where
  "copyCommand_of config backupFileName hostBackupPath =
     ''docker cp '' @ containerId config @ '':'' @ location config @ ''/'' @ backupFileName
       @ '' '' @ hostBackupPath @ ''/''"

definition copy_step :: "'w docker_ops \<Rightarrow> BackupConfig \<Rightarrow> string \<Rightarrow> string \<Rightarrow> 'w step" where
  "copy_step dk config backupFileName hostBackupPath w =
     (let copyCommand = copyCommand_of config backupFileName hostBackupPath
      in case execAsync dk copyCommand w of
           (Inl e, w') \<Rightarrow> (Rejected e, [Copy copyCommand], w')
         | (Inr _, w') \<Rightarrow> (Resolved (), [Copy copyCommand], w'))"

definition post_step :: "'w docker_ops \<Rightarrow> BackupConfig \<Rightarrow> 'w step" where
  "post_step dk config =
     (if truthy (postCommand config)
      then await_exec dk (containerId config) (ToString (postCommand config))
      else skip_step)"

definition cleanup_step :: "'w fs_ops \<Rightarrow> string \<Rightarrow> jsnum \<Rightarrow> 'w step" where
  "cleanup_step fsys hostBackupPath keep w =
     (case cleanupOldBackups fsys hostBackupPath keep w of
        (evs, _, w') \<Rightarrow> (Resolved (), Cleanup hostBackupPath keep # evs, w'))"

definition try_block :: "'w fs_ops \<Rightarrow> 'w docker_ops \<Rightarrow> BackupConfig \<Rightarrow> string \<Rightarrow> string \<Rightarrow> 'w step" where
  "try_block fsys dk config backupFileName hostBackupPath =
     and_then (pre_step dk config)
       (and_then (main_step dk config backupFileName)
          (and_then (copy_step dk config backupFileName hostBackupPath)
             (and_then (post_step dk config)
                (cleanup_step fsys hostBackupPath (retention config)))))"

text \<open>
  \<open>fs.ensureDir\<close> is awaited before the \<open>try\<close>: its rejection rejects
  \<open>executeBackup\<close>. The \<open>catch\<close> turns a rejection inside the block into \<open>false\<close>.
\<close>

definition executeBackup :: "'w fs_ops \<Rightarrow> 'w docker_ops \<Rightarrow> BackupModuleOptions \<Rightarrow> BackupConfig \<Rightarrow> 'w \<Rightarrow> bool promise \<times> event list \<times> 'w" where
  "executeBackup fsys dk opts config w0 =
     (let backupFileName = backupFileName_of dk config w0;
          hostBackupPath = hostBackupPath_of fsys opts config
      in case fs_ensureDir fsys hostBackupPath w0 of
           (Inl e, w1) \<Rightarrow> (Rejected e, [EnsureDir hostBackupPath], w1)
         | (Inr _, w1) \<Rightarrow>
             (case try_block fsys dk config backupFileName hostBackupPath w1 of
                (Resolved _, evs, w2) \<Rightarrow> (Resolved True, EnsureDir hostBackupPath # evs, w2)
              | (Rejected e, evs, w2) \<Rightarrow> (Resolved False, EnsureDir hostBackupPath # evs, w2)
              | (Pending, evs, w2) \<Rightarrow> (Pending, EnsureDir hostBackupPath # evs, w2)))"

section \<open>runBackups\<close>

definition getBackupContainers :: "'w docker_ops \<Rightarrow> BackupModuleOptions \<Rightarrow> 'w \<Rightarrow> ContainerInfo list \<times> 'w" where
  "getBackupContainers dk opts w =
     (case listContainers dk w of
        (Inl e, w') \<Rightarrow> ([], w')
      | (Inr containers, w') \<Rightarrow>
          (filter (\<lambda>container. labels_of container (labelPrefix opts @ ''.backup'') = Some ''true'')
             containers, w'))"

text \<open>
  The \<open>for\<close> loop of \<open>runBackups\<close> with the \<open>results\<close> array so far. Nothing catches
  around \<open>extractBackupConfig\<close> and \<open>executeBackup\<close>: what they throw rejects the run.
\<close>

fun backup_loop :: "'w fs_ops \<Rightarrow> 'w docker_ops \<Rightarrow> BackupModuleOptions \<Rightarrow> ContainerInfo list \<Rightarrow> (string \<times> bool) list \<Rightarrow> 'w \<Rightarrow> (string \<times> bool) list promise \<times> event list \<times> 'w" where
  "backup_loop fsys dk opts [] results w = (Resolved results, [], w)"
| "backup_loop fsys dk opts (container # containers) results w =
     (case extractBackupConfig opts container of
        Inl e \<Rightarrow> (Rejected e, [], w)
      | Inr config \<Rightarrow>
          if \<not> enabled config then backup_loop fsys dk opts containers results w
          else if \<not> truthy (command config) then backup_loop fsys dk opts containers results w
          else (case executeBackup fsys dk opts config w of
                  (Resolved success, evs, w') \<Rightarrow>
                    (case backup_loop fsys dk opts containers
                            (results @ [(containerName config, success)]) w' of
                       (r, evs', w'') \<Rightarrow> (r, evs @ evs', w''))
                | (Rejected e, evs, w') \<Rightarrow> (Rejected e, evs, w')
                | (Pending, evs, w') \<Rightarrow> (Pending, evs, w')))"

text \<open>With no container found the function returns \<open>undefined\<close> (\<open>None\<close>).\<close>

definition runBackups :: "'w fs_ops \<Rightarrow> 'w docker_ops \<Rightarrow> BackupModuleOptions \<Rightarrow> 'w \<Rightarrow> (string \<times> bool) list option promise \<times> event list \<times> 'w" where
  "runBackups fsys dk opts w =
     (case getBackupContainers dk opts w of
        (containers, w1) \<Rightarrow>
          if length containers = 0 then (Resolved None, [], w1)
          else (case backup_loop fsys dk opts containers [] w1 of
                  (r, evs, w2) \<Rightarrow> (map_promise Some r, evs, w2)))"

section \<open>A host directory and a scripted Docker daemon\<close>

text \<open>
  The backup directory of one container as the service sees it through \<open>fs-extra\<close>: its
  entries in \<open>readdir\<close> order, each with its modification time in milliseconds (\<open>None\<close>
  when \<open>statSync\<close> throws on it) and whether \<open>fs.remove\<close> succeeds on it. \<open>fs.remove\<close>
  of a path that does not exist succeeds and changes nothing.
\<close>

record file_entry =
  fname :: string
  mtime_ms :: "int option"
  removable :: bool

type_synonym directory = "file_entry list"

definition dir_join :: "string \<Rightarrow> string \<Rightarrow> string" where
  "dir_join a b = a @ ''/'' @ b"

definition dir_fs :: "string \<Rightarrow> directory fs_ops" where
  "dir_fs root =
     \<lparr> fs_ensureDir = (\<lambda>p d. (Inr (), d)),
       fs_readdir = (\<lambda>p d. if p = root then Inr (map fname d) else Inl (Thrown ''ENOENT'')),
       fs_statSync = (\<lambda>p d.
          case find (\<lambda>e. dir_join root (fname e) = p) d of
            None \<Rightarrow> Inl (Thrown ''ENOENT'')
          | Some e \<Rightarrow> (case mtime_ms e of None \<Rightarrow> Inl (Thrown ''EACCES'') | Some t \<Rightarrow> Inr t)),
       fs_remove = (\<lambda>p d.
          case find (\<lambda>e. dir_join root (fname e) = p) d of
            None \<Rightarrow> (Inr (), d)
          | Some e \<Rightarrow>
              if removable e then (Inr (), filter (\<lambda>e'. dir_join root (fname e') \<noteq> p) d)
              else (Inl (Thrown ''EPERM''), d)),
       path_join = dir_join \<rparr>"

text \<open>
  A Docker daemon whose answers depend on the command only: the containers it lists, the
  reply to each exec, whether each \<open>docker cp\<close> exits with 0, and the time of day.
\<close>

definition script_docker :: "ContainerInfo list \<Rightarrow> (string \<Rightarrow> exec_reply) \<Rightarrow> (string \<Rightarrow> bool) \<Rightarrow> string \<Rightarrow> 'w docker_ops" where
  "script_docker containers reply cp_ok now =
     \<lparr> listContainers = (\<lambda>w. (Inr containers, w)),
       container_exec = (\<lambda>cid cmd w. (reply cmd, w)),
       execAsync = (\<lambda>cmd w. (if cp_ok cmd then Inr () else Inl (Thrown ''Command failed''), w)),
       toISOString_now = (\<lambda>w. now) \<rparr>"

text \<open>The candidates of a directory and their order after the sort, as entries.\<close>

definition is_candidate :: "file_entry \<Rightarrow> bool" where
  "is_candidate e = js_includes (fname e) ''_''"

definition mt :: "file_entry \<Rightarrow> int" where
  "mt e = (case mtime_ms e of None \<Rightarrow> 0 | Some t \<Rightarrow> t)"

definition newest_first :: "directory \<Rightarrow> file_entry list" where
  "newest_first d = sort_key (\<lambda>e. - mt e) (filter is_candidate d)"

text \<open>The record \<open>cleanupOldBackups\<close> builds for an entry of the directory \<open>root\<close>.\<close>

definition backup_file_of :: "string \<Rightarrow> file_entry \<Rightarrow> backup_file" where
  "backup_file_of root e =
     \<lparr> name = fname e, path = dir_join root (fname e), mtime = mt e \<rparr>"

text \<open>
  Example directories: three artifacts listed out of order, the same with a file that is
  not an artifact, and the same with the middle artifact protected against removal.
\<close>

definition artifact :: "string \<Rightarrow> int \<Rightarrow> bool \<Rightarrow> file_entry" where
  "artifact n t r = \<lparr> fname = n, mtime_ms = Some t, removable = r \<rparr>"

definition three_artifacts :: directory where
  "three_artifacts = [artifact ''a_1'' 10 True, artifact ''a_3'' 30 True, artifact ''a_2'' 20 True]"

definition mixed_dir :: directory where
  "mixed_dir = three_artifacts @ [artifact ''notes'' 5 True]"

definition locked_dir :: directory where
  "locked_dir = [artifact ''a_1'' 10 True, artifact ''a_3'' 30 True, artifact ''a_2'' 20 False]"

text \<open>
  A decimal numeral (a non-empty string of the digits 0 to 9) and the number it denotes,
  to state what \<open>parseInt\<close> makes of a retention label.
\<close>

definition is_digit :: "char \<Rightarrow> bool" where
  "is_digit c = (48 \<le> (of_char c :: nat) \<and> (of_char c :: nat) \<le> 57)"

definition is_decimal :: "string \<Rightarrow> bool" where
  "is_decimal s = (s \<noteq> [] \<and> list_all is_digit s)"

definition decimal_value :: "string \<Rightarrow> nat" where
  "decimal_value s = foldl (\<lambda>a c. 10 * a + (of_char c - 48)) 0 s"

text \<open>The module options of the README and a container of its MySQL example.\<close>

definition default_opts :: BackupModuleOptions where
  "default_opts =
     \<lparr> labelPrefix = ''docker-backup-tool'', backupDir = ''/backups'',
       cronSchedule = ''0 2 * * *'' \<rparr>"

definition mysql_app :: "(string \<times> string) list \<Rightarrow> ContainerInfo" where
  "mysql_app extra =
     \<lparr> Id_c = ''4f1c'', Names = [''/mysql-app''],
       Labels = Some (map_of ([(''docker-backup-tool.backup'', ''true''),
                               (''docker-backup-tool.command'', ''mysqldump'')] @ extra)) \<rparr>"

text \<open>
  The configuration of the MySQL example with retention 1, and a daemon on which the dump
  command prints a given text while every other command prints nothing.
\<close>

definition mysql_config :: BackupConfig where
  "mysql_config =
     \<lparr> containerId = ''4f1c'', containerName = ''mysql-app'', enabled = True,
       command = Some ''mysqldump'', location = ''/tmp/backup'', schedule = None,
       retention = Num 1, preCommand = Some ''mkdir -p /tmp/backup'',
       postCommand = Some ''rm -rf /tmp/backup/*'' \<rparr>"

definition dump_reply :: "string \<Rightarrow> string \<Rightarrow> exec_reply" where
  "dump_reply out cmd =
     (if prefix ''mysqldump'' cmd then Stream [StrChunk out] True else Stream [] True)"

definition dump_docker :: "ContainerInfo list \<Rightarrow> string \<Rightarrow> directory docker_ops" where
  "dump_docker containers out =
     script_docker containers (dump_reply out) (\<lambda>cmd. True) ''2025-01-01T02:00:00.000Z''"

text \<open>
  A container that is not to be backed up: its configuration has \<open>enabled = false\<close> or
  no command. \<open>host_dir_of\<close> is the host directory of a container, \<open>name_of\<close> its
  name in the results.
\<close>

definition skipped :: "BackupModuleOptions \<Rightarrow> ContainerInfo \<Rightarrow> bool" where
  "skipped opts container =
     (case extractBackupConfig opts container of
        Inl e \<Rightarrow> False
      | Inr config \<Rightarrow> \<not> enabled config \<or> command config = None)"

definition name_of :: "BackupModuleOptions \<Rightarrow> ContainerInfo \<Rightarrow> string" where
  "name_of opts container =
     (case extractBackupConfig opts container of
        Inl e \<Rightarrow> []
      | Inr config \<Rightarrow> containerName config)"

definition host_dir_of :: "'w fs_ops \<Rightarrow> BackupModuleOptions \<Rightarrow> ContainerInfo \<Rightarrow> string" where
  "host_dir_of fsys opts container = path_join fsys (backupDir opts) (name_of opts container)"

text \<open>Two containers with the backup label, the second one without a command.\<close>

definition redis_app :: ContainerInfo where
  "redis_app =
     \<lparr> Id_c = ''9a2e'', Names = [''/redis-app''],
       Labels = Some (map_of [(''docker-backup-tool.backup'', ''true'')]) \<rparr>"

section \<open>Properties of extractBackupConfig\<close>

lemma parseInt_undefined: "parseInt ''undefined'' = NaN"
  by (simp add: parseInt_def isStrWhiteSpaceChar_def isRadixDigit_def digitValue_def)

lemma retention_is_parseInt:
  assumes "Names c = n # ns"
  shows "\<exists>cfg. extractBackupConfig opts c = Inr cfg \<and>
           retention cfg = parseInt (ToString (labels_of c (labelPrefix opts @ ''.retention'')))"
  using assms by (simp add: extractBackupConfig_def nullish_def Let_def)

lemma digit_radix10:
  assumes "is_digit c"
  shows "isRadixDigit 10 c" "digitValue c = Some (of_char c - 48)" "\<not> isStrWhiteSpaceChar c"
    "c \<noteq> CHR ''-''" "c \<noteq> CHR ''+''" "c \<noteq> CHR ''x''" "c \<noteq> CHR ''X''"
  using assms by (auto simp: is_digit_def isRadixDigit_def digitValue_def isStrWhiteSpaceChar_def)

lemma mathInt_decimal_acc:
  assumes "list_all is_digit s"
  shows "foldl (\<lambda>acc c. case digitValue c of None \<Rightarrow> acc | Some d \<Rightarrow> acc * 10 + d) a s
       = foldl (\<lambda>a c. 10 * a + (of_char c - 48)) a s"
  using assms 
proof (induction s arbitrary: a)
  case Nil then show ?case by simp
next
  case (Cons c s)
  then have "is_digit c" "list_all is_digit s" by simp_all
  then show ?case using Cons.IH[of "10 * a + (of_char c - 48)"] digit_radix10(2)[of c]
    by (simp add: mult.commute)
qed

lemma takeWhile_digits:
  assumes "list_all is_digit s"
  shows "takeWhile (isRadixDigit 10) s = s"
  using assms by (induction s) (simp_all add: digit_radix10(1))


lemma not_hex_digits:
  assumes "list_all is_digit s"
  shows "take 2 s \<noteq> [CHR ''0'', CHR ''x'']" "take 2 s \<noteq> [CHR ''0'', CHR ''X'']"
proof -
  have "s = [] \<or> (\<exists>a. s = [a]) \<or> (\<exists>a b t. s = a # b # t)"
    by (cases s; cases "tl s") auto
  then show "take 2 s \<noteq> [CHR ''0'', CHR ''x'']" "take 2 s \<noteq> [CHR ''0'', CHR ''X'']"
    using assms digit_radix10(6,7) by (auto simp: numeral_2_eq_2)
qed

lemma parseInt_unsigned:
  assumes "S \<noteq> []" "\<not> isStrWhiteSpaceChar (hd S)" "hd S \<noteq> CHR ''-''" "hd S \<noteq> CHR ''+''"
    "take 2 S \<noteq> [CHR ''0'', CHR ''x'']" "take 2 S \<noteq> [CHR ''0'', CHR ''X'']"
    "takeWhile (isRadixDigit 10) S = S"
  shows "parseInt S = Num (int (mathInt 10 S))"
proof -
  have dw: "dropWhile isStrWhiteSpaceChar S = S"
    using assms(1,2) by (cases S) simp_all
  show ?thesis
    unfolding parseInt_def dw Let_def using assms by (simp del: takeWhile_eq_all_conv)
qed

lemma parseInt_signed:
  assumes "take 2 S \<noteq> [CHR ''0'', CHR ''x'']" "take 2 S \<noteq> [CHR ''0'', CHR ''X'']"
    "takeWhile (isRadixDigit 10) S = S" "S \<noteq> []"
  shows "parseInt (CHR ''-'' # S) = Num (- int (mathInt 10 S))"
    and "parseInt (CHR ''+'' # S) = Num (int (mathInt 10 S))"
proof -
  have dw: "dropWhile isStrWhiteSpaceChar (CHR ''-'' # S) = CHR ''-'' # S"
    "dropWhile isStrWhiteSpaceChar (CHR ''+'' # S) = CHR ''+'' # S"
    by (simp_all add: isStrWhiteSpaceChar_def)
  show "parseInt (CHR ''-'' # S) = Num (- int (mathInt 10 S))"
    unfolding parseInt_def dw Let_def using assms by (simp del: takeWhile_eq_all_conv)
  show "parseInt (CHR ''+'' # S) = Num (int (mathInt 10 S))"
    unfolding parseInt_def dw Let_def using assms by (simp del: takeWhile_eq_all_conv)
qed

lemma parseInt_decimal:
  assumes "is_decimal ds"
  shows "parseInt ds = Num (int (decimal_value ds))"
    and "parseInt (CHR ''+'' # ds) = Num (int (decimal_value ds))"
    and "parseInt (CHR ''-'' # ds) = Num (- int (decimal_value ds))"
proof -
  from assms have ne: "ds \<noteq> []" and all: "list_all is_digit ds"
    by (auto simp: is_decimal_def)
  then have c: "is_digit (hd ds)" by (cases ds) auto
  have tw: "takeWhile (isRadixDigit 10) ds = ds" by (rule takeWhile_digits[OF all])
  have mi: "mathInt 10 ds = decimal_value ds"
    unfolding mathInt_def decimal_value_def by (rule mathInt_decimal_acc[OF all])
  note nh = not_hex_digits[OF all]
  show "parseInt ds = Num (int (decimal_value ds))"
    using parseInt_unsigned[OF ne digit_radix10(3,4,5)[OF c] nh tw] mi by simp
  show "parseInt (CHR ''+'' # ds) = Num (int (decimal_value ds))"
    using parseInt_signed(2)[OF nh tw ne] mi by simp
  show "parseInt (CHR ''-'' # ds) = Num (- int (decimal_value ds))"
    using parseInt_signed(1)[OF nh tw ne] mi by simp
qed

lemma mysql_app_labels:
  "Names (mysql_app extra) = [''/mysql-app'']"
  "labels_of (mysql_app extra) k =
     map_of ([(''docker-backup-tool.backup'', ''true''),
              (''docker-backup-tool.command'', ''mysqldump'')] @ extra) k"
  by (simp_all add: mysql_app_def labels_of_def)

text \<open>
  C1. The claim: for every label map that misses the \<open>{prefix}.retention\<close> key or maps
  it to a non-numeric string, \<open>extractBackupConfig\<close> yields retention 7. The code does
  not: \<open>parseInt\<close> of \<open>undefined\<close> or of a string with no leading numeral is \<open>NaN\<close>,
  and \<open>NaN ?? 7\<close> is \<open>NaN\<close>, since \<open>??\<close> replaces \<open>undefined\<close> and \<open>null\<close> only.
  So for every such label map (and a container with a name) the retention of the
  configuration is \<open>NaN\<close>, not 7.
\<close>

theorem extractBackupConfig_retention_NaN:
  assumes "Names c = n # ns"
    and "labels_of c (labelPrefix opts @ ''.retention'') = None
         \<or> (\<exists>s. labels_of c (labelPrefix opts @ ''.retention'') = Some s \<and> parseInt s = NaN)"
  shows "\<exists>cfg. extractBackupConfig opts c = Inr cfg \<and> retention cfg = NaN \<and> retention cfg \<noteq> Num 7"
proof -
  from retention_is_parseInt[OF assms(1), of opts] obtain cfg where
    cfg: "extractBackupConfig opts c = Inr cfg"
    and r: "retention cfg = parseInt (ToString (labels_of c (labelPrefix opts @ ''.retention'')))"
    by blast
  from assms(2) have "retention cfg = NaN"
  proof
    assume "labels_of c (labelPrefix opts @ ''.retention'') = None"
    then show ?thesis using r by (simp add: ToString_def parseInt_undefined)
  next
    assume "\<exists>s. labels_of c (labelPrefix opts @ ''.retention'') = Some s \<and> parseInt s = NaN"
    then show ?thesis using r by (auto simp: ToString_def)
  qed
  with cfg show ?thesis by simp
qed

theorem extractBackupConfig_retention_NaN_witness:
  "(\<exists>cfg. extractBackupConfig default_opts (mysql_app []) = Inr cfg \<and> retention cfg = NaN \<and> retention cfg \<noteq> Num 7)
   \<and> (\<exists>cfg. extractBackupConfig default_opts (mysql_app [(''docker-backup-tool.retention'', ''seven'')]) = Inr cfg
         \<and> retention cfg = NaN \<and> retention cfg \<noteq> Num 7)"
proof
  have "labels_of (mysql_app []) (labelPrefix default_opts @ ''.retention'') = None"
    by (simp add: mysql_app_labels default_opts_def)
  then show "\<exists>cfg. extractBackupConfig default_opts (mysql_app []) = Inr cfg \<and> retention cfg = NaN \<and> retention cfg \<noteq> Num 7"
    using extractBackupConfig_retention_NaN[of "mysql_app []" "''/mysql-app''" "[]" default_opts]
    by (simp add: mysql_app_labels)
next
  have p: "parseInt ''seven'' = NaN"
    by (simp add: parseInt_def isStrWhiteSpaceChar_def isRadixDigit_def digitValue_def)
  have "labels_of (mysql_app [(''docker-backup-tool.retention'', ''seven'')]) (labelPrefix default_opts @ ''.retention'') = Some ''seven''"
    by (simp add: mysql_app_labels default_opts_def)
  then show "\<exists>cfg. extractBackupConfig default_opts (mysql_app [(''docker-backup-tool.retention'', ''seven'')]) = Inr cfg
         \<and> retention cfg = NaN \<and> retention cfg \<noteq> Num 7"
    using extractBackupConfig_retention_NaN[of "mysql_app [(''docker-backup-tool.retention'', ''seven'')]" "''/mysql-app''" "[]" default_opts] p
    by (simp add: mysql_app_labels)
qed

text \<open>
  C5. The claim: for every container info the configuration of \<open>extractBackupConfig\<close>
  has retention at least 1. The code checks no bound: the label \<open>0\<close> gives retention 0.
  Amended: when the retention label is a decimal numeral with an optional sign, of a
  value up to \<open>2 ^ 53\<close>, the retention is that integer, whatever its size; it is at
  least 1 exactly when the numeral is not negated and denotes at least 1.
\<close>

theorem extractBackupConfig_retention_of_numeral:
  assumes "Names c = n # ns"
    and "labels_of c (labelPrefix opts @ ''.retention'') = Some (sg @ ds)"
    and "sg = [] \<or> sg = ''+'' \<or> sg = ''-''"
    and "is_decimal ds"
    and "decimal_value ds \<le> 2 ^ 53"
  shows "\<exists>cfg. extractBackupConfig opts c = Inr cfg
           \<and> retention cfg = Num ((if sg = ''-'' then - 1 else 1) * int (decimal_value ds))
           \<and> (js_ge (retention cfg) (Num 1) \<longleftrightarrow> sg \<noteq> ''-'' \<and> 1 \<le> decimal_value ds)"
proof -
  from retention_is_parseInt[OF assms(1), of opts] obtain cfg where
    cfg: "extractBackupConfig opts c = Inr cfg"
    and r: "retention cfg = parseInt (sg @ ds)"
    using assms(2) by (auto simp: ToString_def)
  have "parseInt (sg @ ds) = Num ((if sg = ''-'' then - 1 else 1) * int (decimal_value ds))"
    using assms(3) parseInt_decimal[OF assms(4)] by auto
  with cfg r show ?thesis by auto
qed

theorem extractBackupConfig_retention_of_numeral_witness:
  "\<exists>cfg. extractBackupConfig default_opts (mysql_app [(''docker-backup-tool.retention'', ''-3'')]) = Inr cfg
         \<and> retention cfg = Num (- 3) \<and> \<not> js_ge (retention cfg) (Num 1)"
proof -
  have l: "labels_of (mysql_app [(''docker-backup-tool.retention'', ''-3'')]) (labelPrefix default_opts @ ''.retention'') = Some (''-'' @ ''3'')"
    by (simp add: mysql_app_labels default_opts_def)
  have d: "is_decimal ''3''" "decimal_value ''3'' = 3"
    by (simp_all add: is_decimal_def is_digit_def decimal_value_def)
  from extractBackupConfig_retention_of_numeral[OF mysql_app_labels(1) l _ d(1)]
  show ?thesis by (simp add: d(2))
qed

theorem extractBackupConfig_retention_ge_1_counterexample:
  "\<exists>cfg. extractBackupConfig default_opts (mysql_app [(''docker-backup-tool.retention'', ''0'')]) = Inr cfg
         \<and> retention cfg = Num 0 \<and> \<not> js_ge (retention cfg) (Num 1)"
proof -
  have p: "parseInt ''0'' = Num 0"
    by (simp add: parseInt_def isStrWhiteSpaceChar_def isRadixDigit_def digitValue_def mathInt_def)
  have l: "labels_of (mysql_app [(''docker-backup-tool.retention'', ''0'')]) (labelPrefix default_opts @ ''.retention'') = Some ''0''"
    by (simp add: mysql_app_labels default_opts_def)
  from retention_is_parseInt[of "mysql_app [(''docker-backup-tool.retention'', ''0'')]" _ _ default_opts, OF mysql_app_labels(1)]
  show ?thesis unfolding l by (auto simp: ToString_def p)
qed

section \<open>Properties of execInContainer\<close>

lemma js_includes_sublist: "js_includes s pat \<longleftrightarrow> sublist pat s"
  by (induction s) (simp_all add: sublist_Cons_right)

lemma js_includes_iff: "js_includes s pat \<longleftrightarrow> (\<exists>ps ss. s = ps @ pat @ ss)"
  by (simp add: js_includes_sublist sublist_def)

lemma foldl_on_data: "foldl on_data acc cs = acc @ concat [s. StrChunk s \<leftarrow> cs]"
proof (induction cs arbitrary: acc)
  case Nil
  then show ?case by simp
next
  case (Cons c cs)
  then show ?case by (cases c) simp_all
qed

lemma accumulated_strings: "accumulated cs = concat [s. StrChunk s \<leftarrow> cs]"
  by (simp add: accumulated_def foldl_on_data)

text \<open>
  C6. When the exec stream ends, \<open>execInContainer\<close> is settled by the content of the
  accumulated output alone: it rejects with an error carrying that output if and only if
  the output contains \<open>Error\<close> or \<open>error\<close> as a substring, and otherwise resolves with
  the output.
\<close>

theorem execInContainer_content_based:
  assumes "container_exec dk cid cmd w = (Stream cs True, w')"
  shows "execInContainer dk cid cmd w =
           (if (\<exists>ps ss. accumulated cs = ps @ ''Error'' @ ss) \<or> (\<exists>ps ss. accumulated cs = ps @ ''error'' @ ss)
            then Rejected (Thrown (accumulated cs)) else Resolved (accumulated cs), w')
       \<and> (fst (execInContainer dk cid cmd w) = Rejected (Thrown (accumulated cs))
            \<longleftrightarrow> (\<exists>ps ss. accumulated cs = ps @ ''Error'' @ ss) \<or> (\<exists>ps ss. accumulated cs = ps @ ''error'' @ ss))"
  using assms by (simp add: execInContainer_def on_end_def js_includes_iff)

theorem execInContainer_content_based_witness:
  "execInContainer (script_docker [] (\<lambda>cmd. Stream [StrChunk ''mysqldump: Got '', OtherChunk [1, 2], StrChunk ''error: 1045''] True) (\<lambda>cmd. True) ''t'')
      ''4f1c'' ''mysqldump'' ([] :: directory)
    = (Rejected (Thrown ''mysqldump: Got error: 1045''), [])
  \<and> execInContainer (script_docker [] (\<lambda>cmd. Stream [StrChunk ''dump '', StrChunk ''done''] True) (\<lambda>cmd. True) ''t'')
      ''4f1c'' ''mysqldump'' ([] :: directory)
    = (Resolved ''dump done'', [])"
  using execInContainer_content_based[of
      "script_docker [] (\<lambda>cmd. Stream [StrChunk ''mysqldump: Got '', OtherChunk [1, 2], StrChunk ''error: 1045''] True) (\<lambda>cmd. True) ''t''"
      "''4f1c''" "''mysqldump''" "[] :: directory" "[StrChunk ''mysqldump: Got '', OtherChunk [1, 2], StrChunk ''error: 1045'']" "[]"]
    execInContainer_content_based[of
      "script_docker [] (\<lambda>cmd. Stream [StrChunk ''dump '', StrChunk ''done''] True) (\<lambda>cmd. True) ''t''"
      "''4f1c''" "''mysqldump''" "[] :: directory" "[StrChunk ''dump '', StrChunk ''done'']" "[]"]
  unfolding js_includes_iff[symmetric]
  by (simp add: script_docker_def accumulated_def)

text \<open>
  C10. Only the chunks that are primitive strings are appended to the output: it is the
  concatenation of the string chunks in order. When the stream emits no string chunk
  (Buffers only, say), the output is empty and the call resolves with the empty string,
  whatever the chunks contain.
\<close>

theorem execInContainer_discards_non_strings:
  assumes "container_exec dk cid cmd w = (Stream cs True, w')"
  shows "accumulated cs = concat [s. StrChunk s \<leftarrow> cs]
       \<and> ((\<forall>c \<in> set cs. \<exists>b. c = OtherChunk b) \<longrightarrow>
             accumulated cs = [] \<and> execInContainer dk cid cmd w = (Resolved [], w'))"
proof -
  have acc: "accumulated cs = concat [s. StrChunk s \<leftarrow> cs]"
    by (rule accumulated_strings)
  have empty: "accumulated cs = []" if "\<forall>c \<in> set cs. \<exists>b. c = OtherChunk b"
  proof -
    have "[s. StrChunk s \<leftarrow> cs] = []" using that by (induction cs) auto
    then show ?thesis by (simp add: acc)
  qed
  have res: "execInContainer dk cid cmd w = (Resolved [], w')" if "accumulated cs = []"
    using assms that by (simp add: execInContainer_def on_end_def)
  show ?thesis using acc empty res by blast
qed

theorem execInContainer_discards_non_strings_witness:
  "accumulated [OtherChunk [69, 114, 114, 111, 114], OtherChunk [33]] = []
   \<and> execInContainer (script_docker [] (\<lambda>cmd. Stream [OtherChunk [69, 114, 114, 111, 114], OtherChunk [33]] True) (\<lambda>cmd. True) ''t'')
      ''4f1c'' ''mysqldump'' ([] :: directory) = (Resolved [], [])"
  using execInContainer_discards_non_strings[of
      "script_docker [] (\<lambda>cmd. Stream [OtherChunk [69, 114, 114, 111, 114], OtherChunk [33]] True) (\<lambda>cmd. True) ''t''"
      "''4f1c''" "''mysqldump''" "[] :: directory" "[OtherChunk [69, 114, 114, 111, 114], OtherChunk [33]]" "[]"]
  by (simp add: script_docker_def)

section \<open>cleanupOldBackups on a host directory\<close>

lemma dir_join_inj [simp]: "dir_join root a = dir_join root b \<longleftrightarrow> a = b"
  by (simp add: dir_join_def)

lemma dir_fs_simps:
  "path_join (dir_fs root) = dir_join"
  "fs_readdir (dir_fs root) p d = (if p = root then Inr (map fname d) else Inl (Thrown ''ENOENT''))"
  "fs_statSync (dir_fs root) p d =
     (case find (\<lambda>e. dir_join root (fname e) = p) d of
        None \<Rightarrow> Inl (Thrown ''ENOENT'')
      | Some e \<Rightarrow> (case mtime_ms e of None \<Rightarrow> Inl (Thrown ''EACCES'') | Some t \<Rightarrow> Inr t))"
  "fs_remove (dir_fs root) p d =
     (case find (\<lambda>e. dir_join root (fname e) = p) d of
        None \<Rightarrow> (Inr (), d)
      | Some e \<Rightarrow>
          if removable e then (Inr (), filter (\<lambda>e'. dir_join root (fname e') \<noteq> p) d)
          else (Inl (Thrown ''EPERM''), d))"
  by (simp_all add: dir_fs_def)

lemma find_entry:
  assumes "distinct (map fname d)" "e \<in> set d"
  shows "find (\<lambda>e'. fname e' = fname e) d = Some e"
  using assms by (induction d) (auto simp: rev_image_eqI)

lemma same_name:
  assumes "distinct (map fname d)" "e \<in> set d" "e' \<in> set d"
  shows "fname e' = fname e \<longleftrightarrow> e' = e"
  using assms by (meson distinct_map inj_on_def)

lemma stat_files_dir:
  assumes "distinct (map fname d)" "set es \<subseteq> set d"
  shows "stat_files (dir_fs root) d root (map fname es) =
           (if list_all (\<lambda>e. mtime_ms e \<noteq> None) es then Inr (map (backup_file_of root) es)
            else Inl (Thrown ''EACCES''))"
  using assms(2)
proof (induction es)
  case Nil
  then show ?case by simp
next
  case (Cons e es)
  then have e: "e \<in> set d" and es: "set es \<subseteq> set d" by auto
  have st: "fs_statSync (dir_fs root) (dir_join root (fname e)) d
              = (case mtime_ms e of None \<Rightarrow> Inl (Thrown ''EACCES'') | Some t \<Rightarrow> Inr t)"
    by (simp add: dir_fs_simps find_entry[OF assms(1) e])
  show ?case
    using Cons.IH[OF es]
    by (auto simp: st backup_file_of_def mt_def dir_fs_simps(1) split: option.splits)
qed

lemma insort_key_map:
  "insort_key f (g x) (map g xs) = map g (insort_key (\<lambda>y. f (g y)) x xs)"
  by (induction xs) simp_all

lemma sort_key_map: "sort_key f (map g xs) = map g (sort_key (\<lambda>y. f (g y)) xs)"
  by (induction xs) (simp_all add: insort_key_map)

lemma js_slice_map: "js_slice (map g xs) k = map g (js_slice xs k)"
  by (cases k) (simp_all add: drop_map)

lemma filter_other_name:
  assumes "distinct (map fname d)" "e \<in> set d"
  shows "filter (\<lambda>e'. fname e' \<noteq> fname e) d = filter (\<lambda>e'. e' \<noteq> e) d"
  using same_name[OF assms] by (intro filter_cong) auto

lemma path_backup_file_of: "path (backup_file_of root e) = dir_join root (fname e)"
  by (simp add: backup_file_of_def)

lemma remove_files_dir:
  assumes "distinct (map fname d)" "set del \<subseteq> set d" "distinct del"
  shows "remove_files (dir_fs root) (map (backup_file_of root) del) d =
           (map (\<lambda>e. Remove (dir_join root (fname e)))
                (takeWhile removable del @ take 1 (dropWhile removable del)),
            if list_all removable del then None else Some (Thrown ''EPERM''),
            filter (\<lambda>e. e \<notin> set (takeWhile removable del)) d)"
  using assms
proof (induction del arbitrary: d)
  case Nil
  then show ?case by simp
next
  case (Cons e del)
  then have e: "e \<in> set d" by simp
  note fe = find_entry[OF Cons.prems(1) e]
  show ?case
  proof (cases "removable e")
    case False
    then show ?thesis
      by (simp add: dir_fs_simps backup_file_of_def fe)
  next
    case True
    let ?d' = "filter (\<lambda>e'. e' \<noteq> e) d"
    have rm: "fs_remove (dir_fs root) (dir_join root (fname e)) d = (Inr (), ?d')"
      using True by (simp add: dir_fs_simps fe filter_other_name[OF Cons.prems(1) e])
    have d': "distinct (map fname ?d')" 
      using Cons.prems(1) by (simp add: distinct_map_filter)
    have sub: "set del \<subseteq> set ?d'" using Cons.prems(2,3) by auto
    have dis: "distinct del" using Cons.prems(3) by simp
    have flt: "filter (\<lambda>x. x \<notin> set (takeWhile removable del)) ?d'
               = filter (\<lambda>x. x \<notin> set (takeWhile removable (e # del))) d"
      using True by (auto intro: filter_cong)
    show ?thesis
      using Cons.IH[OF d' sub dis] True
      by (simp add: rm flt[symmetric] path_backup_file_of)
  qed
qed

lemma newest_first_props:
  "set (newest_first d) = {e \<in> set d. is_candidate e}"
  "sorted (map (\<lambda>e. - mt e) (newest_first d))"
  "length (newest_first d) = length (filter is_candidate d)"
  "distinct d \<Longrightarrow> distinct (newest_first d)"
  by (simp_all add: newest_first_def)

text \<open>
  What one run does to a directory with distinct entry names: nothing when \<open>statSync\<close>
  throws on a candidate or the candidates do not outnumber the retention; otherwise it
  removes the candidates from the slice start on, newest first, up to the first one whose
  removal fails.
\<close>

lemma cleanup_dir:
  assumes "distinct (map fname d)"
  shows "cleanupOldBackups (dir_fs root) root keep d =
     (if \<not> list_all (\<lambda>e. mtime_ms e \<noteq> None) (filter is_candidate d)
      then ([], Some (Thrown ''EACCES''), d)
      else if js_gt (Num (int (length (newest_first d)))) keep
      then (map (\<lambda>e. Remove (dir_join root (fname e)))
              (takeWhile removable (js_slice (newest_first d) keep)
                 @ take 1 (dropWhile removable (js_slice (newest_first d) keep))),
            if list_all removable (js_slice (newest_first d) keep) then None
            else Some (Thrown ''EPERM''),
            filter (\<lambda>e. e \<notin> set (takeWhile removable (js_slice (newest_first d) keep))) d)
      else ([], None, d))"
proof -
  have names: "filter (\<lambda>file. js_includes file ''_'') (map fname d) = map fname (filter is_candidate d)"
    by (simp add: filter_map is_candidate_def[abs_def] comp_def)
  have st: "stat_files (dir_fs root) d root (map fname (filter is_candidate d)) =
           (if list_all (\<lambda>e. mtime_ms e \<noteq> None) (filter is_candidate d)
            then Inr (map (backup_file_of root) (filter is_candidate d))
            else Inl (Thrown ''EACCES''))"
    by (rule stat_files_dir[OF assms]) auto
  have srt: "sort_key (\<lambda>f. - mtime f) (map (backup_file_of root) (filter is_candidate d))
             = map (backup_file_of root) (newest_first d)"
    by (simp add: sort_key_map newest_first_def backup_file_of_def)
  have dd: "distinct d" using assms by (simp add: distinct_map)
  have sub: "set (js_slice (newest_first d) keep) \<subseteq> set d"
    by (cases keep) (auto simp: newest_first_props(1) dest: in_set_dropD)
  have dis: "distinct (js_slice (newest_first d) keep)"
    using newest_first_props(4)[OF dd] by (cases keep) simp_all
  note rm = remove_files_dir[OF assms sub dis, of root]
  have rd: "fs_readdir (dir_fs root) root d = Inr (map fname d)"
    by (simp add: dir_fs_simps)
  show ?thesis
  proof (cases "list_all (\<lambda>e. mtime_ms e \<noteq> None) (filter is_candidate d)")
    case False
    then show ?thesis
      by (simp add: cleanupOldBackups_def rd st[folded names])
  next
    case True
    then show ?thesis
      by (simp add: cleanupOldBackups_def rd st[folded names] srt js_slice_map rm Let_def)
  qed
qed

lemma newest_first_descending: "sorted_wrt (\<lambda>a b. mt b \<le> mt a) (newest_first d)"
  using newest_first_props(2)[of d] by (simp add: sorted_map)

lemma kept_entries:
  assumes "distinct d"
  shows "set (filter (\<lambda>e. e \<notin> set (drop r (newest_first d))) d)
         = set (take r (newest_first d)) \<union> {e \<in> set d. \<not> is_candidate e}"
proof -
  have dn: "distinct (take r (newest_first d) @ drop r (newest_first d))"
    using newest_first_props(4)[OF assms] by simp
  have un: "set (take r (newest_first d)) \<union> set (drop r (newest_first d)) = {e \<in> set d. is_candidate e}"
    using newest_first_props(1)[of d] by (metis append_take_drop_id set_append)
  have dj: "set (take r (newest_first d)) \<inter> set (drop r (newest_first d)) = {}"
    using dn by (simp only: distinct_append)
  show ?thesis using un dj by auto
qed

lemma three_artifacts_facts:
  "newest_first three_artifacts = [artifact ''a_3'' 30 True, artifact ''a_2'' 20 True, artifact ''a_1'' 10 True]"
  "distinct (map fname three_artifacts)"
  "list_all is_candidate three_artifacts"
  "list_all (\<lambda>e. mtime_ms e \<noteq> None) three_artifacts"
  "list_all removable three_artifacts"
  "length three_artifacts = 3"
  by (simp_all add: newest_first_def three_artifacts_def artifact_def is_candidate_def mt_def)

lemma locked_dir_facts:
  "newest_first locked_dir = [artifact ''a_3'' 30 True, artifact ''a_2'' 20 False, artifact ''a_1'' 10 True]"
  "distinct (map fname locked_dir)"
  "list_all (\<lambda>e. mtime_ms e \<noteq> None) (filter is_candidate locked_dir)"
  by (simp_all add: newest_first_def locked_dir_def artifact_def is_candidate_def mt_def)

text \<open>
  C4. The candidates are exactly the entries whose name contains \<open>_\<close>; they are ordered
  by modification time, newest first. For a retention \<open>r \<ge> 0\<close>, when \<open>statSync\<close>
  succeeds on every candidate and \<open>fs.remove\<close> on every candidate from index \<open>r\<close> on:
  if the candidates outnumber \<open>r\<close>, the run removes exactly the candidates from index
  \<open>r\<close> on, in that order, and otherwise removes nothing; what remains is the \<open>r\<close> newest
  candidates and every entry that is not a candidate.
\<close>

theorem cleanupOldBackups_prunes_beyond_retention:
  assumes "distinct (map fname d)"
    and "list_all (\<lambda>e. mtime_ms e \<noteq> None) (filter is_candidate d)"
    and "list_all removable (drop r (newest_first d))"
  shows "set (newest_first d) = {e \<in> set d. \<exists>ps ss. fname e = ps @ ''_'' @ ss}
       \<and> sorted_wrt (\<lambda>a b. mt b \<le> mt a) (newest_first d)
       \<and> cleanupOldBackups (dir_fs root) root (Num (int r)) d =
           (if r < length (newest_first d)
            then (map (\<lambda>e. Remove (dir_join root (fname e))) (drop r (newest_first d)), None,
                  filter (\<lambda>e. e \<notin> set (drop r (newest_first d))) d)
            else ([], None, d))
       \<and> set (filter (\<lambda>e. e \<notin> set (drop r (newest_first d))) d)
           = set (take r (newest_first d)) \<union> {e \<in> set d. \<not> (\<exists>ps ss. fname e = ps @ ''_'' @ ss)}"
proof -
  have dd: "distinct d" using assms(1) by (simp add: distinct_map)
  have cand: "is_candidate e \<longleftrightarrow> (\<exists>ps ss. fname e = ps @ ''_'' @ ss)" for e
    by (simp add: is_candidate_def js_includes_iff)
  have tw: "takeWhile removable (drop r (newest_first d)) = drop r (newest_first d)"
    "dropWhile removable (drop r (newest_first d)) = []"
    using assms(3) by (simp_all add: list_all_iff)
  have run: "cleanupOldBackups (dir_fs root) root (Num (int r)) d =
           (if r < length (newest_first d)
            then (map (\<lambda>e. Remove (dir_join root (fname e))) (drop r (newest_first d)), None,
                  filter (\<lambda>e. e \<notin> set (drop r (newest_first d))) d)
            else ([], None, d))"
    using assms(2,3) by (simp add: cleanup_dir[OF assms(1)] tw)
  show ?thesis
    using newest_first_props(1)[of d] newest_first_descending[of d] run kept_entries[OF dd, of r]
    by (simp add: cand)
qed

theorem cleanupOldBackups_prunes_beyond_retention_witness:
  "cleanupOldBackups (dir_fs ''/b'') ''/b'' (Num 1) mixed_dir =
     ([Remove ''/b/a_2'', Remove ''/b/a_1''], None, [artifact ''a_3'' 30 True, artifact ''notes'' 5 True])"
proof -
  have nf: "newest_first mixed_dir = [artifact ''a_3'' 30 True, artifact ''a_2'' 20 True, artifact ''a_1'' 10 True]"
    by (simp add: newest_first_def mixed_dir_def three_artifacts_def artifact_def is_candidate_def mt_def)
  have h1: "distinct (map fname mixed_dir)"
    by (simp add: mixed_dir_def three_artifacts_def artifact_def)
  have h2: "list_all (\<lambda>e. mtime_ms e \<noteq> None) (filter is_candidate mixed_dir)"
    by (simp add: mixed_dir_def three_artifacts_def artifact_def is_candidate_def)
  have h3: "list_all removable (drop 1 (newest_first mixed_dir))"
    by (simp add: nf artifact_def)
  from cleanupOldBackups_prunes_beyond_retention[OF h1 h2 h3, of "''/b''"]
  show ?thesis
    by (simp add: nf dir_join_def) (simp add: mixed_dir_def three_artifacts_def artifact_def)
qed

text \<open>
  C3. The claim: with \<open>N\<close> artifacts and retention \<open>1 \<le> R < N\<close>, exactly \<open>N - R\<close> files
  remain after one run. With three artifacts and retention 1, one file remains, not two.
  Amended: exactly \<open>R\<close> files remain (\<open>N - R\<close> are removed), and they are the \<open>R\<close> most
  recently modified: every kept file is at least as recent as every removed one. This is
  for a directory of artifacts only, on which \<open>statSync\<close> and \<open>fs.remove\<close> succeed.
\<close>

theorem cleanupOldBackups_remaining_count:
  assumes "distinct (map fname d)"
    and "list_all is_candidate d"
    and "list_all (\<lambda>e. mtime_ms e \<noteq> None) d"
    and "list_all removable d"
    and "1 \<le> R" and "R < length d"
  shows "\<exists>evs d'. cleanupOldBackups (dir_fs root) root (Num (int R)) d = (evs, None, d')
           \<and> length d' = R \<and> length evs = length d - R
           \<and> set d' = set (take R (newest_first d))
           \<and> (\<forall>k \<in> set d'. \<forall>x \<in> set d - set d'. mt x \<le> mt k)"
proof -
  let ?nf = "newest_first d"
  let ?d' = "filter (\<lambda>e. e \<notin> set (drop R ?nf)) d"
  have dd: "distinct d" using assms(1) by (simp add: distinct_map)
  have all: "filter is_candidate d = d" using assms(2) by (simp add: list_all_iff)
  have setnf: "set ?nf = set d" and lennf: "length ?nf = length d" and dnf: "distinct ?nf"
    using newest_first_props(1,3)[of d] newest_first_props(4)[OF dd] all assms(2)
    by (auto simp: list_all_iff)
  have h2: "list_all (\<lambda>e. mtime_ms e \<noteq> None) (filter is_candidate d)"
    using assms(3) by (simp add: all)
  have h3: "list_all removable (drop R ?nf)"
    using assms(4) setnf by (auto simp: list_all_iff dest: in_set_dropD)
  have tw: "takeWhile removable (drop R ?nf) = drop R ?nf" "dropWhile removable (drop R ?nf) = []"
    using h3 by (simp_all add: list_all_iff)
  have run: "cleanupOldBackups (dir_fs root) root (Num (int R)) d =
               (map (\<lambda>e. Remove (dir_join root (fname e))) (drop R ?nf), None, ?d')"
    using h2 h3 assms(6) by (simp add: cleanup_dir[OF assms(1)] tw lennf)
  have kept: "set ?d' = set (take R ?nf)"
    using kept_entries[OF dd, of R] assms(2) by (auto simp: list_all_iff)
  have "distinct ?d'" using dd by simp
  then have "length ?d' = card (set ?d')"
    by (simp only: distinct_card)
  also have "\<dots> = card (set (take R ?nf))" by (simp only: kept)
  also have "\<dots> = length (take R ?nf)" using dnf by (simp add: distinct_card)
  also have "\<dots> = R" using assms(6) lennf by simp
  finally have len: "length ?d' = R" .
  have ord: "mt x \<le> mt k" if k: "k \<in> set ?d'" and x: "x \<in> set d - set ?d'" for k x
  proof -
    have "k \<in> set (take R ?nf)" using k unfolding kept .
    moreover have "x \<in> set (drop R ?nf)" using x by (simp del: set_filter add: set_filter[of _ d]) 
    moreover have "sorted_wrt (\<lambda>a b. mt b \<le> mt a) (take R ?nf @ drop R ?nf)"
      using newest_first_descending[of d] by simp
    ultimately show ?thesis by (simp only: sorted_wrt_append)
  qed
  show ?thesis
    using run len kept ord lennf by (intro exI[of _ "map (\<lambda>e. Remove (dir_join root (fname e))) (drop R ?nf)"] exI[of _ ?d']) simp
qed

theorem cleanupOldBackups_remaining_count_witness:
  "\<exists>evs d'. cleanupOldBackups (dir_fs ''/b'') ''/b'' (Num 2) three_artifacts = (evs, None, d')
       \<and> length d' = 2 \<and> length evs = 1
       \<and> set d' = {artifact ''a_3'' 30 True, artifact ''a_2'' 20 True}"
proof -
  from cleanupOldBackups_remaining_count[OF three_artifacts_facts(2,3,4,5), of 2 "''/b''"]
  obtain evs d' where
    "cleanupOldBackups (dir_fs ''/b'') ''/b'' (Num 2) three_artifacts = (evs, None, d')"
    "length d' = 2" "length evs = 1" "set d' = {artifact ''a_3'' 30 True, artifact ''a_2'' 20 True}"
    by (auto simp: three_artifacts_facts(1,6))
  then show ?thesis by blast
qed

theorem cleanupOldBackups_remaining_count_counterexample:
  "length (snd (snd (cleanupOldBackups (dir_fs ''/b'') ''/b'' (Num 1) three_artifacts))) = 1
   \<and> length (snd (snd (cleanupOldBackups (dir_fs ''/b'') ''/b'' (Num 1) three_artifacts)))
       \<noteq> length three_artifacts - 1"
proof -
  have "list_all (\<lambda>e. mtime_ms e \<noteq> None) (filter is_candidate three_artifacts)"
    "list_all removable (js_slice (newest_first three_artifacts) (Num 1))"
    by (simp_all add: three_artifacts_facts(1)) (simp_all add: three_artifacts_def artifact_def is_candidate_def)
  then show ?thesis
    by (simp add: cleanup_dir[OF three_artifacts_facts(2)] three_artifacts_facts(1,6))
       (simp add: three_artifacts_def artifact_def)
qed

text \<open>
  C2. The claim: a removal that fails does not end the removal of the later (older)
  candidates. It does: the loop is inside the one \<open>try\<close> of the function, so the first
  rejected \<open>fs.remove\<close> leaves the loop. In the example the middle artifact cannot be
  removed, and the oldest one is neither attempted nor removed.
  Amended: when the removal of a candidate beyond the retention index fails, the
  candidates before it (from the retention index on) have been removed, the failing one
  and all later ones stay in the directory, no removal of a later one is attempted, and
  the error is caught inside \<open>cleanupOldBackups\<close>, which returns normally.
\<close>

theorem cleanupOldBackups_aborts_on_error:
  assumes "distinct (map fname d)"
    and "list_all (\<lambda>e. mtime_ms e \<noteq> None) (filter is_candidate d)"
    and "drop r (newest_first d) = ok @ bad # later"
    and "list_all removable ok" and "\<not> removable bad"
  shows "cleanupOldBackups (dir_fs root) root (Num (int r)) d =
           (map (\<lambda>e. Remove (dir_join root (fname e))) (ok @ [bad]), Some (Thrown ''EPERM''),
            filter (\<lambda>e. e \<notin> set ok) d)
       \<and> (\<forall>e \<in> set later.
             Remove (dir_join root (fname e)) \<notin> set (fst (cleanupOldBackups (dir_fs root) root (Num (int r)) d))
             \<and> e \<in> set (snd (snd (cleanupOldBackups (dir_fs root) root (Num (int r)) d))))"
proof -
  let ?nf = "newest_first d"
  have dd: "distinct d" using assms(1) by (simp add: distinct_map)
  have len: "r < length ?nf"
  proof (rule ccontr)
    assume "\<not> r < length ?nf"
    then have "drop r ?nf = []" by simp
    with assms(3) show False by simp
  qed
  have tw: "takeWhile removable (drop r ?nf) = ok"
    using assms(4,5) by (simp add: assms(3) list_all_iff takeWhile_append2)
  have dw: "dropWhile removable (drop r ?nf) = bad # later"
    using assms(4,5) by (simp add: assms(3) list_all_iff dropWhile_append2)
  have nall: "\<not> list_all removable (drop r ?nf)"
    using assms(5) by (simp add: assms(3))
  have run: "cleanupOldBackups (dir_fs root) root (Num (int r)) d =
           (map (\<lambda>e. Remove (dir_join root (fname e))) (ok @ [bad]), Some (Thrown ''EPERM''),
            filter (\<lambda>e. e \<notin> set ok) d)"
    using assms(2) len nall by (simp add: cleanup_dir[OF assms(1)] tw dw)
  have dis: "distinct (ok @ bad # later)"
    using newest_first_props(4)[OF dd] distinct_drop[of ?nf r] by (simp only: assms(3))
  have ind: "set (ok @ bad # later) \<subseteq> set d"
    using newest_first_props(1)[of d] set_drop_subset[of r ?nf] by (auto simp only: assms(3))
  have later: "Remove (dir_join root (fname e)) \<notin> set (map (\<lambda>e. Remove (dir_join root (fname e))) (ok @ [bad]))
               \<and> e \<in> set (filter (\<lambda>e. e \<notin> set ok) d)" if e: "e \<in> set later" for e
  proof -
    have ed: "e \<in> set d" and eno: "e \<notin> set (ok @ [bad])" using e dis ind by auto
    have names: "fname x \<noteq> fname e" if "x \<in> set (ok @ [bad])" for x
    proof -
      have "x \<in> set d" and "x \<noteq> e" using that ind eno by auto
      then show ?thesis using same_name[OF assms(1) ed, of x] by simp
    qed
    have "Remove (dir_join root (fname e)) \<notin> (\<lambda>e. Remove (dir_join root (fname e))) ` set (ok @ [bad])"
    proof
      assume "Remove (dir_join root (fname e)) \<in> (\<lambda>e. Remove (dir_join root (fname e))) ` set (ok @ [bad])"
      then obtain x where x: "x \<in> set (ok @ [bad])"
        and "Remove (dir_join root (fname e)) = Remove (dir_join root (fname x))" by blast
      then have "fname x = fname e" by simp
      with names[OF x] show False by simp
    qed
    moreover have "e \<in> set (filter (\<lambda>e. e \<notin> set ok) d)" using ed eno by simp
    ultimately show ?thesis unfolding set_map by (rule conjI)
  qed
  show ?thesis unfolding run using later by simp
qed

theorem cleanupOldBackups_aborts_on_error_witness:
  "cleanupOldBackups (dir_fs ''/b'') ''/b'' (Num 1) locked_dir =
     ([Remove ''/b/a_2''], Some (Thrown ''EPERM''), locked_dir)"
proof -
  have h3: "drop 1 (newest_first locked_dir) = [] @ artifact ''a_2'' 20 False # [artifact ''a_1'' 10 True]"
    by (simp add: locked_dir_facts(1))
  have h5: "\<not> removable (artifact ''a_2'' 20 False)" by (simp add: artifact_def)
  from cleanupOldBackups_aborts_on_error[OF locked_dir_facts(2,3) h3 _ h5, of "''/b''"]
  show ?thesis by (simp add: dir_join_def artifact_def)
qed

theorem cleanupOldBackups_continues_counterexample:
  "artifact ''a_1'' 10 True \<in> set (drop 1 (newest_first locked_dir))
   \<and> Remove (dir_join ''/b'' ''a_1'') \<notin> set (fst (cleanupOldBackups (dir_fs ''/b'') ''/b'' (Num 1) locked_dir))
   \<and> artifact ''a_1'' 10 True \<in> set (snd (snd (cleanupOldBackups (dir_fs ''/b'') ''/b'' (Num 1) locked_dir)))"
proof -
  have tw: "takeWhile removable (js_slice (newest_first locked_dir) (Num 1)) = []"
    "dropWhile removable (js_slice (newest_first locked_dir) (Num 1)) = [artifact ''a_2'' 20 False, artifact ''a_1'' 10 True]"
    by (simp_all add: locked_dir_facts(1)) (simp_all add: artifact_def)
  have "cleanupOldBackups (dir_fs ''/b'') ''/b'' (Num 1) locked_dir =
          ([Remove ''/b/a_2''], Some (Thrown ''EPERM''), locked_dir)"
    using locked_dir_facts(3)
    by (simp add: cleanup_dir[OF locked_dir_facts(2)] tw locked_dir_facts(1))
       (simp add: artifact_def dir_join_def)
  then show ?thesis
    by (simp add: locked_dir_facts(1) dir_join_def) (simp add: locked_dir_def)
qed

lemma takeWhile_dropWhile_Nil: "takeWhile P (dropWhile P xs) = []"
  by (induction xs) simp_all

lemma newest_first_filter:
  "newest_first (filter Q d) = filter Q (newest_first d)"
proof -
  have "filter is_candidate (filter Q d) = filter Q (filter is_candidate d)"
    by (simp add: conj_commute)
  then show ?thesis by (simp add: newest_first_def filter_sort)
qed

lemma filter_out_middle:
  assumes "distinct (xs @ ys @ zs)"
  shows "filter (\<lambda>e. e \<notin> set ys) (xs @ ys @ zs) = xs @ zs"
proof -
  have "filter (\<lambda>e. e \<notin> set ys) xs = xs" "filter (\<lambda>e. e \<notin> set ys) zs = zs"
    using assms by (auto simp: filter_id_conv)
  then show ?thesis by simp
qed

lemma second_run_dir:
  assumes "distinct (map fname d)"
    and "list_all (\<lambda>e. mtime_ms e \<noteq> None) (filter is_candidate d)"
    and "r < length (newest_first d)"
  shows "snd (snd (cleanupOldBackups (dir_fs root) root (Num (int r))
            (filter (\<lambda>e. e \<notin> set (takeWhile removable (drop r (newest_first d)))) d)))
         = filter (\<lambda>e. e \<notin> set (takeWhile removable (drop r (newest_first d)))) d"
proof -
  let ?nf = "newest_first d"
  let ?T = "takeWhile removable (drop r ?nf)"
  let ?rest = "dropWhile removable (drop r ?nf)"
  let ?d1 = "filter (\<lambda>e. e \<notin> set ?T) d"
  have dd: "distinct d" using assms(1) by (simp add: distinct_map)
  have split: "?nf = take r ?nf @ ?T @ ?rest" by simp
  have dnf: "distinct (take r ?nf @ ?T @ ?rest)"
    using newest_first_props(4)[OF dd] by simp
  have nf1: "newest_first ?d1 = take r ?nf @ ?rest"
    using filter_out_middle[OF dnf] by (simp add: newest_first_filter)
  have d1: "distinct (map fname ?d1)" using assms(1) by (simp add: distinct_map_filter)
  have dr: "drop r (newest_first ?d1) = ?rest"
    using assms(3) by (simp add: nf1)
  show ?thesis
    by (simp add: cleanup_dir[OF d1] dr takeWhile_dropWhile_Nil)
qed

lemma cleanup_three_artifacts:
  "cleanupOldBackups (dir_fs ''/b'') ''/b'' (Num 1) three_artifacts
     = ([Remove ''/b/a_2'', Remove ''/b/a_1''], None, [artifact ''a_3'' 30 True])"
  by (simp add: cleanupOldBackups_def dir_fs_simps three_artifacts_def artifact_def dir_join_def)

text \<open>
  C9. \<open>cleanupOldBackups\<close> is idempotent: for every directory and every retention of
  the contract (an integer that is at least 1; the statement also covers 0 and \<open>NaN\<close>),
  a second run, with no file added in between, leaves the directory as the first run
  left it, also when a removal failed in the first run. Whenever the number of
  candidates is at most the retention, a run makes no removal and leaves the directory
  as it is.
\<close>

theorem cleanupOldBackups_idempotent:
  assumes "distinct (map fname d)" and "\<not> js_gt (Num 0) keep"
  shows "snd (snd (cleanupOldBackups (dir_fs root) root keep
                     (snd (snd (cleanupOldBackups (dir_fs root) root keep d)))))
           = snd (snd (cleanupOldBackups (dir_fs root) root keep d))
       \<and> (js_ge keep (Num (int (length (filter is_candidate d)))) \<longrightarrow>
            fst (cleanupOldBackups (dir_fs root) root keep d) = []
            \<and> snd (snd (cleanupOldBackups (dir_fs root) root keep d)) = d)"
proof (cases keep)
  case NaN
  then show ?thesis by (simp add: cleanup_dir[OF assms(1)])
next
  case (Num n)
  with assms(2) have n: "0 \<le> n" by simp
  define r where "r = nat n"
  have keep: "keep = Num (int r)" using Num n by (simp add: r_def)
  have sl: "js_slice xs keep = drop r xs" for xs :: "file_entry list"
    by (simp add: keep)
  have gt: "js_gt (Num (int (length (newest_first d)))) keep \<longleftrightarrow> r < length (newest_first d)"
    by (simp add: keep)
  have ge: "js_ge keep (Num (int (length (filter is_candidate d)))) \<longleftrightarrow> \<not> r < length (newest_first d)"
    by (auto simp: keep newest_first_props(3))
  have first: "snd (snd (cleanupOldBackups (dir_fs root) root keep d)) =
      (if list_all (\<lambda>e. mtime_ms e \<noteq> None) (filter is_candidate d) \<and> r < length (newest_first d)
       then filter (\<lambda>e. e \<notin> set (takeWhile removable (drop r (newest_first d)))) d else d)"
    by (simp add: cleanup_dir[OF assms(1)] sl gt)
  have no_calls: "fst (cleanupOldBackups (dir_fs root) root keep d) = []"
    if "\<not> r < length (newest_first d)"
    using that by (simp add: cleanup_dir[OF assms(1)] gt)
  show ?thesis
  proof (cases "list_all (\<lambda>e. mtime_ms e \<noteq> None) (filter is_candidate d) \<and> r < length (newest_first d)")
    case True
    then have st: "list_all (\<lambda>e. mtime_ms e \<noteq> None) (filter is_candidate d)"
      and len: "r < length (newest_first d)" by simp_all
    from second_run_dir[OF assms(1) st len, of root] True
    show ?thesis unfolding first ge by (simp add: keep)
  next
    case False
    then have same: "snd (snd (cleanupOldBackups (dir_fs root) root keep d)) = d"
      by (simp only: first if_False)
    show ?thesis
    proof (intro conjI impI)
      show "snd (snd (cleanupOldBackups (dir_fs root) root keep
                     (snd (snd (cleanupOldBackups (dir_fs root) root keep d)))))
           = snd (snd (cleanupOldBackups (dir_fs root) root keep d))"
        by (simp only: same)
    next
      assume "js_ge keep (Num (int (length (filter is_candidate d))))"
      then have "\<not> r < length (newest_first d)" unfolding ge .
      from no_calls[OF this]
      show "fst (cleanupOldBackups (dir_fs root) root keep d) = []" .
    next
      show "snd (snd (cleanupOldBackups (dir_fs root) root keep d)) = d" by (rule same)
    qed
  qed
qed

theorem cleanupOldBackups_idempotent_witness:
  "snd (snd (cleanupOldBackups (dir_fs ''/b'') ''/b'' (Num 1)
               (snd (snd (cleanupOldBackups (dir_fs ''/b'') ''/b'' (Num 1) three_artifacts)))))
     = [artifact ''a_3'' 30 True]
   \<and> snd (snd (cleanupOldBackups (dir_fs ''/b'') ''/b'' (Num 1) three_artifacts)) = [artifact ''a_3'' 30 True]"
  using cleanupOldBackups_idempotent[OF three_artifacts_facts(2), of "Num 1" "''/b''"]
  by (simp add: cleanup_three_artifacts)

section \<open>Properties of executeBackup\<close>

text \<open>
  The calls a step makes: one exec for a pre-, main or post-command that is set, none
  for one that is not, one \<open>docker cp\<close> for the copy; never a cleanup.
\<close>

lemma await_exec_events: "fst (snd (await_exec dk cid cmd w)) = [Exec cid cmd]"
  by (simp add: await_exec_def split: prod.splits)

lemma step_events:
  "fst (snd (pre_step dk config w)) =
     (if truthy (preCommand config) then [Exec (containerId config) (ToString (preCommand config))] else [])"
  "fst (snd (main_step dk config fn w)) =
     (if truthy (command config) then [Exec (containerId config) (fullCommand_of config fn)] else [])"
  "fst (snd (copy_step dk config fn hp w)) = [Copy (copyCommand_of config fn hp)]"
  "fst (snd (post_step dk config w)) =
     (if truthy (postCommand config) then [Exec (containerId config) (ToString (postCommand config))] else [])"
  by (simp_all add: pre_step_def main_step_def copy_step_def post_step_def await_exec_events
        skip_step_def Let_def split: prod.splits sum.splits)






lemma cleanup_step_result:
  "cleanup_step fsys hp k w =
     (Resolved (), Cleanup hp k # fst (cleanupOldBackups fsys hp k w),
      snd (snd (cleanupOldBackups fsys hp k w)))"
  by (simp add: cleanup_step_def split: prod.splits)




lemma mysql_run_facts:
  "hostBackupPath_of (dir_fs ''/backups/mysql-app'') default_opts mysql_config = ''/backups/mysql-app''"
  "backupFileName_of (dump_docker cs out) mysql_config w = ''mysql-app_2025-01-01T02-00-00-000Z''"
  "fs_ensureDir (dir_fs ''/backups/mysql-app'') p w = (Inr (), w)"
  "pre_step (dump_docker cs out) mysql_config w = (Resolved (), [Exec ''4f1c'' ''mkdir -p /tmp/backup''], w)"
  "post_step (dump_docker cs out) mysql_config w = (Resolved (), [Exec ''4f1c'' ''rm -rf /tmp/backup/*''], w)"
  "copy_step (dump_docker cs out) mysql_config ''mysql-app_2025-01-01T02-00-00-000Z'' ''/backups/mysql-app'' w
     = (Resolved (), [Copy ''docker cp 4f1c:/tmp/backup/mysql-app_2025-01-01T02-00-00-000Z /backups/mysql-app/''], w)"
  "main_step (dump_docker cs out) mysql_config ''mysql-app_2025-01-01T02-00-00-000Z'' w
     = (map_promise (\<lambda>_. ()) (on_end out),
        [Exec ''4f1c'' ''mysqldump > /tmp/backup/mysql-app_2025-01-01T02-00-00-000Z''], w)"
  by (simp_all add: hostBackupPath_of_def backupFileName_of_def timestamp_of_def dir_fs_def
      default_opts_def mysql_config_def dump_docker_def script_docker_def dump_reply_def dir_join_def
      pre_step_def post_step_def copy_step_def main_step_def await_exec_def execInContainer_def
      truthy_def ToString_def copyCommand_of_def fullCommand_of_def accumulated_def on_end_def)




section \<open>Properties of runBackups\<close>

lemma backup_loop_skip:
  assumes "skipped opts c"
  shows "backup_loop fsys dk opts (c # cs) results w = backup_loop fsys dk opts cs results w"
  using assms by (auto simp: skipped_def truthy_def split: sum.splits)

lemma backup_loop_filter:
  "backup_loop fsys dk opts cs results w
     = backup_loop fsys dk opts (filter (\<lambda>c. \<not> skipped opts c) cs) results w"
proof (induction cs arbitrary: results w)
  case Nil
  then show ?case by simp
next
  case (Cons c cs)
  show ?case
  proof (cases "skipped opts c")
    case True
    then have f: "filter (\<lambda>c. \<not> skipped opts c) (c # cs) = filter (\<lambda>c. \<not> skipped opts c) cs"
      by simp
    show ?thesis unfolding f backup_loop_skip[OF True] by (rule Cons.IH)
  next
    case False
    then have f: "filter (\<lambda>c. \<not> skipped opts c) (c # cs) = c # filter (\<lambda>c. \<not> skipped opts c) cs"
      by simp
    show ?thesis unfolding f
      by (simp only: backup_loop.simps(2) Cons.IH[symmetric])
  qed
qed

lemma remove_files_events:
  "ev \<in> set (fst (remove_files fsys fs w)) \<Longrightarrow> \<exists>p. ev = Remove p"
proof (induction fs arbitrary: w)
  case Nil
  then show ?case by simp
next
  case (Cons f fs)
  obtain r w1 where rm: "fs_remove fsys (path f) w = (r, w1)" by (cases "fs_remove fsys (path f) w")
  obtain evs e w2 where rf: "remove_files fsys fs w1 = (evs, e, w2)" by (metis prod_cases3)
  from Cons.IH[of w1] have ih: "ev \<in> set evs \<Longrightarrow> \<exists>p. ev = Remove p" by (simp add: rf)
  from Cons.prems show ?case
    by (cases r) (auto simp: rm rf dest: ih)
qed

lemma cleanup_events:
  "ev \<in> set (fst (cleanupOldBackups fsys p k w)) \<Longrightarrow> \<exists>q. ev = Remove q"
  by (auto simp: cleanupOldBackups_def Let_def split: sum.splits if_splits dest: remove_files_events)

lemma and_then_events:
  assumes "ev \<in> set (fst (snd (and_then a b w)))"
  shows "ev \<in> set (fst (snd (a w))) \<or> (\<exists>w'. ev \<in> set (fst (snd (b w'))))"
proof -
  obtain r evs w1 where aw: "a w = (r, evs, w1)" by (metis prod_cases3)
  obtain r' evs' w2 where bw: "b w1 = (r', evs', w2)" by (metis prod_cases3)
  have "ev \<in> set evs \<or> ev \<in> set evs'"
    using assms by (cases r) (auto simp: and_then_def aw bw)
  then show ?thesis
  proof
    assume "ev \<in> set evs"
    then show ?thesis by (simp add: aw)
  next
    assume "ev \<in> set evs'"
    then have "ev \<in> set (fst (snd (b w1)))" by (simp add: bw)
    then show ?thesis by blast
  qed
qed

lemma try_block_no_EnsureDir:
  "EnsureDir p \<notin> set (fst (snd (try_block fsys dk config fn hp w)))"
proof
  assume "EnsureDir p \<in> set (fst (snd (try_block fsys dk config fn hp w)))"
  then have "(\<exists>w'. EnsureDir p \<in> set (fst (snd (pre_step dk config w'))))
      \<or> (\<exists>w'. EnsureDir p \<in> set (fst (snd (main_step dk config fn w'))))
      \<or> (\<exists>w'. EnsureDir p \<in> set (fst (snd (copy_step dk config fn hp w'))))
      \<or> (\<exists>w'. EnsureDir p \<in> set (fst (snd (post_step dk config w'))))
      \<or> (\<exists>w'. EnsureDir p \<in> set (fst (snd (cleanup_step fsys hp (retention config) w'))))"
    unfolding try_block_def by (blast dest: and_then_events)
  then show False
    by (auto simp: step_events cleanup_step_result split: if_splits dest: cleanup_events)
qed

lemma executeBackup_EnsureDir:
  assumes "EnsureDir p \<in> set (fst (snd (executeBackup fsys dk opts config w)))"
  shows "p = hostBackupPath_of fsys opts config"
proof -
  obtain r evs w' where tb: "try_block fsys dk config (backupFileName_of dk config w)
      (hostBackupPath_of fsys opts config) (snd (fs_ensureDir fsys (hostBackupPath_of fsys opts config) w))
      = (r, evs, w')"
    by (metis prod_cases3)
  have "EnsureDir p \<notin> set evs"
    using try_block_no_EnsureDir[of p fsys dk config "backupFileName_of dk config w"
      "hostBackupPath_of fsys opts config" "snd (fs_ensureDir fsys (hostBackupPath_of fsys opts config) w)"]
    by (simp add: tb)
  then show ?thesis
    using assms tb
    by (auto simp: executeBackup_def Let_def split: prod.splits sum.splits promise.splits)
qed

lemma backup_loop_EnsureDir:
  assumes "EnsureDir p \<in> set (fst (snd (backup_loop fsys dk opts cs results w)))"
  shows "\<exists>c \<in> set cs. p = host_dir_of fsys opts c"
  using assms
proof (induction cs arbitrary: results w)
  case Nil
  then show ?case by simp
next
  case (Cons c cs)
  show ?case
  proof (cases "extractBackupConfig opts c")
    case (Inl e)
    with Cons.prems show ?thesis by simp
  next
    case (Inr config)
    have hd: "host_dir_of fsys opts c = hostBackupPath_of fsys opts config"
      by (simp add: host_dir_of_def name_of_def hostBackupPath_of_def Inr)
    obtain r evs w' where eb: "executeBackup fsys dk opts config w = (r, evs, w')"
      by (metis prod_cases3)
    have here: "EnsureDir p \<in> set evs \<Longrightarrow> p = host_dir_of fsys opts c"
      using executeBackup_EnsureDir[of p fsys dk opts config w] by (simp add: eb hd)
    have "EnsureDir p \<in> set evs
        \<or> (\<exists>results' w''. EnsureDir p \<in> set (fst (snd (backup_loop fsys dk opts cs results' w''))))"
    proof (cases "\<not> enabled config \<or> \<not> truthy (command config)")
      case True
      with Cons.prems have "EnsureDir p \<in> set (fst (snd (backup_loop fsys dk opts cs results w)))"
        by (auto simp: Inr split: if_splits)
      then show ?thesis by blast
    next
      case False
      show ?thesis
      proof (cases r)
        case (Resolved success)
        obtain r2 evs2 w2 where bl: "backup_loop fsys dk opts cs
            (results @ [(containerName config, success)]) w' = (r2, evs2, w2)"
          by (metis prod_cases3)
        from Cons.prems False have "EnsureDir p \<in> set evs \<or> EnsureDir p \<in> set evs2"
          by (auto simp: Inr eb Resolved bl)
        moreover have "evs2 = fst (snd (backup_loop fsys dk opts cs
            (results @ [(containerName config, success)]) w'))" by (simp add: bl)
        ultimately show ?thesis by blast
      next
        case (Rejected e)
        with Cons.prems False show ?thesis by (auto simp: Inr eb)
      next
        case Pending
        with Cons.prems False show ?thesis by (auto simp: Inr eb)
      qed
    qed
    then show ?thesis using here Cons.IH by auto
  qed
qed

lemma backup_loop_results:
  assumes "fst (backup_loop fsys dk opts cs results w) = Resolved rs"
  shows "set (map fst rs) \<subseteq> set (map fst results) \<union> name_of opts ` set cs
         \<and> length rs \<le> length results + length cs"
  using assms
proof (induction cs arbitrary: results w)
  case Nil
  then show ?case by auto
next
  case (Cons c cs)
  show ?case
  proof (cases "extractBackupConfig opts c")
    case (Inl e)
    with Cons.prems show ?thesis by simp
  next
    case (Inr config)
    have nm: "name_of opts c = containerName config" by (simp add: name_of_def Inr)
    obtain r evs w' where eb: "executeBackup fsys dk opts config w = (r, evs, w')"
      by (metis prod_cases3)
    have
      "fst (backup_loop fsys dk opts cs results w) = Resolved rs
       \<or> (\<exists>success w''. fst (backup_loop fsys dk opts cs (results @ [(containerName config, success)]) w'')
             = Resolved rs)"
    proof (cases "\<not> enabled config \<or> \<not> truthy (command config)")
      case True
      with Cons.prems have "fst (backup_loop fsys dk opts cs results w) = Resolved rs"
        by (auto simp: Inr split: if_splits)
      then show ?thesis by blast
    next
      case False
      show ?thesis
      proof (cases r)
        case (Resolved success)
        obtain r2 evs2 w2 where bl: "backup_loop fsys dk opts cs
            (results @ [(containerName config, success)]) w' = (r2, evs2, w2)"
          by (metis prod_cases3)
        from Cons.prems False have "r2 = Resolved rs"
          by (auto simp: Inr eb Resolved bl)
        then have "fst (backup_loop fsys dk opts cs
            (results @ [(containerName config, success)]) w') = Resolved rs" by (simp add: bl)
        then show ?thesis by blast
      next
        case (Rejected e)
        with Cons.prems False show ?thesis by (auto simp: Inr eb)
      next
        case Pending
        with Cons.prems False show ?thesis by (auto simp: Inr eb)
      qed
    qed
    then show ?thesis
    proof
      assume "fst (backup_loop fsys dk opts cs results w) = Resolved rs"
      from Cons.IH[OF this] show ?thesis by auto
    next
      assume "\<exists>success w''. fst (backup_loop fsys dk opts cs (results @ [(containerName config, success)]) w'')
             = Resolved rs"
      then obtain success w'' where
        "fst (backup_loop fsys dk opts cs (results @ [(containerName config, success)]) w'') = Resolved rs"
        by blast
      from Cons.IH[OF this] show ?thesis by (auto simp: nm)
    qed
  qed
qed

lemma runBackups_loop:
  assumes "getBackupContainers dk opts w = (containers, w1)"
  shows "runBackups fsys dk opts w =
     (if containers = [] then (Resolved None, [], w1)
      else (case backup_loop fsys dk opts (filter (\<lambda>c. \<not> skipped opts c) containers) [] w1 of
              (r, evs, w2) \<Rightarrow> (map_promise Some r, evs, w2)))"
  using assms backup_loop_filter[of fsys dk opts containers "[]" w1]
  by (simp add: runBackups_def)

lemma example_containers:
  "skipped default_opts redis_app"
  "\<not> skipped default_opts (mysql_app [])"
  "extractBackupConfig default_opts (mysql_app []) =
     Inr (mysql_config\<lparr>retention := NaN, preCommand := None, postCommand := None\<rparr>)"
  by (simp_all add: skipped_def extractBackupConfig_def default_opts_def redis_app_def mysql_app_def
      labels_of_def replace_slash_def nullish_def ToString_def parseInt_undefined Let_def
      mysql_config_def)

lemma executeBackup_mysql_no_retention:
  "executeBackup (dir_fs ''/backups/mysql-app'') (dump_docker cs ''done'') default_opts
      (mysql_config\<lparr>retention := NaN, preCommand := None, postCommand := None\<rparr>) three_artifacts
    = (Resolved True,
       [EnsureDir ''/backups/mysql-app'',
        Exec ''4f1c'' ''mysqldump > /tmp/backup/mysql-app_2025-01-01T02-00-00-000Z'',
        Copy ''docker cp 4f1c:/tmp/backup/mysql-app_2025-01-01T02-00-00-000Z /backups/mysql-app/'',
        Cleanup ''/backups/mysql-app'' NaN],
       three_artifacts)"
proof -
  have c: "cleanupOldBackups (dir_fs ''/backups/mysql-app'') ''/backups/mysql-app'' NaN three_artifacts
            = ([], None, three_artifacts)"
    by (simp add: cleanup_dir[OF three_artifacts_facts(2)])
       (simp add: three_artifacts_def artifact_def is_candidate_def)
  show ?thesis
    by (simp add: executeBackup_def try_block_def and_then_def cleanup_step_def c
      hostBackupPath_of_def backupFileName_of_def timestamp_of_def dir_fs_simps
      default_opts_def mysql_config_def dump_docker_def script_docker_def dump_reply_def dir_join_def
      pre_step_def post_step_def copy_step_def main_step_def await_exec_def execInContainer_def
      truthy_def ToString_def copyCommand_of_def fullCommand_of_def accumulated_def on_end_def
      skip_step_def mysql_run_facts(3) Let_def)
qed

text \<open>
  C8. A discovered container whose configuration has \<open>enabled = false\<close> or no command
  is skipped by \<open>runBackups\<close>: the run is the loop over the other discovered containers
  alone, so \<open>executeBackup\<close> is not called for it; every \<open>fs.ensureDir\<close> of the run is
  for the host directory of a container that is not skipped; and every entry of the
  results, successful or failed, is for a container that is not skipped, with at most one
  entry for each of them.
\<close>

theorem runBackups_skips_ineligible:
  assumes "getBackupContainers dk opts w = (containers, w1)"
  shows "runBackups fsys dk opts w =
     (if containers = [] then (Resolved None, [], w1)
      else (case backup_loop fsys dk opts (filter (\<lambda>c. \<not> skipped opts c) containers) [] w1 of
              (r, evs, w2) \<Rightarrow> (map_promise Some r, evs, w2)))
   \<and> (\<forall>rs. fst (runBackups fsys dk opts w) = Resolved (Some rs) \<longrightarrow>
          set (map fst rs) \<subseteq> name_of opts ` {c \<in> set containers. \<not> skipped opts c}
          \<and> length rs \<le> length (filter (\<lambda>c. \<not> skipped opts c) containers))
   \<and> (\<forall>p. EnsureDir p \<in> set (fst (snd (runBackups fsys dk opts w))) \<longrightarrow>
          (\<exists>c \<in> set containers. \<not> skipped opts c \<and> p = host_dir_of fsys opts c))"
proof -
  let ?run = "filter (\<lambda>c. \<not> skipped opts c) containers"
  note rl = runBackups_loop[OF assms, of fsys]
  obtain r evs w2 where bl: "backup_loop fsys dk opts ?run [] w1 = (r, evs, w2)"
    by (metis prod_cases3)
  have res: "set (map fst rs) \<subseteq> name_of opts ` {c \<in> set containers. \<not> skipped opts c}
          \<and> length rs \<le> length ?run"
    if "fst (runBackups fsys dk opts w) = Resolved (Some rs)" for rs
  proof -
    from that have "r = Resolved rs"
      by (cases r) (auto simp: rl bl split: if_splits)
    then have "fst (backup_loop fsys dk opts ?run [] w1) = Resolved rs" by (simp add: bl)
    from backup_loop_results[OF this] show ?thesis by auto
  qed
  have dirs: "\<exists>c \<in> set containers. \<not> skipped opts c \<and> p = host_dir_of fsys opts c"
    if "EnsureDir p \<in> set (fst (snd (runBackups fsys dk opts w)))" for p
  proof -
    from that have "EnsureDir p \<in> set evs"
      by (auto simp: rl bl split: if_splits)
    then have "EnsureDir p \<in> set (fst (snd (backup_loop fsys dk opts ?run [] w1)))" by (simp add: bl)
    from backup_loop_EnsureDir[OF this] show ?thesis by auto
  qed
  show ?thesis using rl res dirs by blast
qed

theorem runBackups_skips_ineligible_witness:
  "skipped default_opts redis_app
   \<and> runBackups (dir_fs ''/backups/mysql-app'') (dump_docker [redis_app, mysql_app [], redis_app] ''done'')
        default_opts three_artifacts
     = (Resolved (Some [(''mysql-app'', True)]),
        [EnsureDir ''/backups/mysql-app'',
         Exec ''4f1c'' ''mysqldump > /tmp/backup/mysql-app_2025-01-01T02-00-00-000Z'',
         Copy ''docker cp 4f1c:/tmp/backup/mysql-app_2025-01-01T02-00-00-000Z /backups/mysql-app/'',
         Cleanup ''/backups/mysql-app'' NaN],
        three_artifacts)"
proof -
  have gb: "getBackupContainers (dump_docker [redis_app, mysql_app [], redis_app] ''done'')
              default_opts three_artifacts
            = ([redis_app, mysql_app [], redis_app], three_artifacts)"
    by (simp add: getBackupContainers_def dump_docker_def script_docker_def labels_of_def
        redis_app_def mysql_app_def default_opts_def)
  have cfg: "enabled mysql_config" "truthy (command mysql_config)"
    "containerName mysql_config = ''mysql-app''"
    by (simp_all add: mysql_config_def truthy_def)
  from runBackups_skips_ineligible[OF gb, of "dir_fs ''/backups/mysql-app''"]
  show ?thesis
    by (simp add: example_containers executeBackup_mysql_no_retention cfg)
qed

end
